theory Spec2Isabelle
  imports Complex_Main "HOL-Library.Multiset"
begin

section \<open>Values shared by the connection and the session\<close>

text \<open>
  The SDK's error classes (errors.ts). Each class fixes its error code, so the class alone
  is kept: \<open>BadRequestError\<close> is code BAD_REQUEST (status 400), \<open>TimeoutError\<close> is TIMEOUT,
  \<open>WebSocketError\<close> is WEBSOCKET_ERROR, \<open>SessionExpiredError\<close> is SESSION_EXPIRED.
  \<open>JsError msg\<close> is a plain \<open>new Error(msg)\<close>, and \<open>TypeError\<close> is the error the runtime
  throws when a property of \<open>null\<close> is read.
\<close>

datatype error =
    BadRequestError
  | TimeoutError
  | WebSocketError
  | SessionExpiredError
  | JsError string
  | TypeError

text \<open>A JavaScript value as \<open>JSON.parse\<close> produces it; a JS string is \<open>JString\<close>.\<close>

datatype json =
    JNull
  | JBool bool
  | JNumber int
  | JString string
  | JArray "json list"
  | JObject "(string \<times> json) list"

datatype MessageRole = agent | recipient

datatype MessageType = log_t | ask_t

text \<open>The wire format of a message (types/api.ts, \<open>ApiMessage\<close>).\<close>

record ApiMessage =
  id_api :: string
  role_api :: MessageRole
  type_api :: MessageType
  content_api :: string
  inputs_api :: "string option"
  sender_id :: "string option"
  response_content :: "string option"
  responded_at :: "string option"
  responded_by :: "string option"
  persist_api :: bool
  created_at :: string

text \<open>The SDK format of a message (types/api.ts, \<open>Message\<close>); \<open>inputs\<close> is the parsed value.\<close>

record Message =
  id_msg :: string
  role_msg :: MessageRole
  type_msg :: MessageType
  content_msg :: string
  inputs_msg :: "json option"
  senderId :: "string option"
  responseContent :: "string option"
  respondedAt :: "string option"
  respondedBy :: "string option"
  persist_msg :: bool
  createdAt :: string

text \<open>What the client sends (types/websocket.ts, \<open>WebSocketSendPayload\<close>).\<close>

record WebSocketSendPayload =
  role_p :: MessageRole
  type_p :: MessageType
  content_p :: string
  inputs_p :: "string option"
  persist_p :: "bool option"

section \<open>The connection (websocket/connection.ts)\<close>

datatype ConnectionStatus = connecting | connected_s | disconnected | error_s

text \<open>
  A frame of the server after \<open>JSON.parse\<close>, as \<open>WebSocketServerMessage\<close> types it.
  \<open>OtherEvent\<close> is a frame whose \<open>type\<close> is none of the five of the \<open>switch\<close>.
\<close>

datatype WebSocketServerMessage =
    ConnectedEvent
  | MessageEvent ApiMessage
  | MessageUpdatedEvent ApiMessage
  | MessageAckEvent string
  | ErrorEvent string
  | OtherEvent

text \<open>The events of \<open>WebSocketEvents\<close>, with the arguments \<open>emit\<close> passes to the listeners.\<close>

datatype WebSocketEvent =
    EvConnected
  | EvMessage ApiMessage
  | EvMessageUpdated ApiMessage
  | EvMessageAck string
  | EvError string
  | EvDisconnected nat string
  | EvStatusChange ConnectionStatus

text \<open>
  What a connection does to its surroundings, in the order it does it: the listeners it
  calls, the channels it opens, detaches (all four callbacks set to null) and closes, the
  connect promises it settles, the frames it transmits and the reconnect timers it sets
  (with the delay in ms) and clears. Channels, connect promises and timers are named by
  handles drawn from one counter.
\<close>

datatype effect =
    Emit WebSocketEvent
  | NewWebSocket nat
  | DetachHandlers nat
  | CloseWebSocket nat
  | ResolveConnect nat
  | RejectConnect nat error
  | WsSend nat WebSocketSendPayload
  | SetTimeout nat real
  | ClearTimeout nat

text \<open>
  The fields of class \<open>WebSocketConnection\<close>, the three options it reads, and the part
  of the runtime it acts on: \<open>attached\<close> lists the channels whose callbacks are installed,
  each with the connect promise its callbacks capture; \<open>scheduled\<close> lists the reconnect
  timers that are set and have neither fired nor been cleared.
\<close>

record WebSocketConnection =
  ws :: "nat option"
  reconnectAttempts :: nat
  reconnectTimeout :: "nat option"
  manualClose :: bool
  status :: ConnectionStatus
  isConnected :: bool
  connectPromise :: "nat option"
  autoReconnect :: bool
  maxReconnectAttempts :: int
  reconnectDelay :: real
  attached :: "(nat \<times> nat) list"
  scheduled :: "nat list"
  fresh :: nat
  effects :: "effect list"

text \<open>\<open>createWebSocketConnection\<close> with no \<open>wsOptions\<close>: the defaults true, 5 and 1000.\<close>

definition createWebSocketConnection :: WebSocketConnection where
  "createWebSocketConnection =
     \<lparr> ws = None, reconnectAttempts = 0, reconnectTimeout = None, manualClose = False,
       status = disconnected, isConnected = False, connectPromise = None,
       autoReconnect = True, maxReconnectAttempts = 5, reconnectDelay = 1000,
       attached = [], scheduled = [], fresh = 0, effects = [] \<rparr>"

definition emit :: "WebSocketEvent \<Rightarrow> WebSocketConnection \<Rightarrow> WebSocketConnection" where
  "emit ev c = c\<lparr>effects := effects c @ [Emit ev]\<rparr>"

definition setStatus :: "ConnectionStatus \<Rightarrow> WebSocketConnection \<Rightarrow> WebSocketConnection" where
  "setStatus st c =
     (if status c \<noteq> st
      then emit (EvStatusChange st) (c\<lparr>status := st, isConnected := (st = connected_s)\<rparr>)
      else c)"

text \<open>
  What \<open>connect()\<close> returns: a promise of this connection, or the fresh fulfilled promise
  of \<open>Promise.resolve()\<close>.
\<close>

datatype promise_ref = PromiseRef nat | PromiseResolved

text \<open>
  \<open>connect()\<close>. The argument is what \<open>new WebSocket\<close> does: \<open>None\<close> when it returns a
  channel, \<open>Some msg\<close> when it throws with that message. The executor of the promise runs
  inside \<open>new Promise\<close>, before the assignment to \<open>this.connectPromise\<close>: the
  \<open>this.connectPromise = null\<close> of the catch branch is overwritten by that assignment.
\<close>

definition connect :: "string option \<Rightarrow> WebSocketConnection \<Rightarrow> promise_ref \<times> WebSocketConnection" where
  "connect ctor c =
     (case connectPromise c of
        Some p \<Rightarrow> (PromiseRef p, c)
      | None \<Rightarrow>
          if isConnected c then (PromiseResolved, c)
          else
            (let p = fresh c;
                 c1 = setStatus connecting (c\<lparr>fresh := Suc p\<rparr>)
             in case ctor of
                  Some msg \<Rightarrow>
                    (let c2 = setStatus error_s c1;
                         c3 = c2\<lparr>connectPromise := None\<rparr>;
                         c4 = emit (EvError msg) c3;
                         c5 = c4\<lparr>effects := effects c4 @ [RejectConnect p WebSocketError]\<rparr>
                     in (PromiseRef p, c5\<lparr>connectPromise := Some p\<rparr>))
                | None \<Rightarrow>
                    (let w = fresh c1;
                         c2 = c1\<lparr>fresh := Suc w, ws := Some w,
                                 effects := effects c1 @ [NewWebSocket w],
                                 attached := attached c1 @ [(w, p)]\<rparr>
                     in (PromiseRef p, c2\<lparr>connectPromise := Some p\<rparr>))))"

fun handleMessage :: "WebSocketServerMessage \<Rightarrow> WebSocketConnection \<Rightarrow> WebSocketConnection" where
  "handleMessage ConnectedEvent c =
     emit EvConnected ((setStatus connected_s c)\<lparr>reconnectAttempts := 0\<rparr>)"
| "handleMessage (MessageEvent m) c = emit (EvMessage m) c"
| "handleMessage (MessageUpdatedEvent m) c = emit (EvMessageUpdated m) c"
| "handleMessage (MessageAckEvent i) c = emit (EvMessageAck i) c"
| "handleMessage (ErrorEvent m) c = emit (EvError m) c"
| "handleMessage OtherEvent c = c"

text \<open>
  The delay of \<open>scheduleReconnect\<close>; \<open>rnd\<close> is the value of \<open>Math.random()\<close>, and the
  arithmetic is that of the reals.
\<close>

definition backoffDelay :: "real \<Rightarrow> nat \<Rightarrow> real \<Rightarrow> real" where
  "backoffDelay base attempts rnd = min (base * 2 ^ attempts + rnd * 1000) 30000"

definition scheduleReconnect :: "real \<Rightarrow> WebSocketConnection \<Rightarrow> WebSocketConnection" where
  "scheduleReconnect rnd c =
     (if int (reconnectAttempts c) \<ge> maxReconnectAttempts c then c
      else
        (let delay = backoffDelay (reconnectDelay c) (reconnectAttempts c) rnd;
             t = fresh c
         in c\<lparr>fresh := Suc t, reconnectTimeout := Some t,
               scheduled := scheduled c @ [t],
               effects := effects c @ [SetTimeout t delay]\<rparr>))"

text \<open>The callback \<open>ws.onopen\<close> of a channel: its body is empty.\<close>

definition onopen :: "nat \<Rightarrow> WebSocketConnection \<Rightarrow> WebSocketConnection" where
  "onopen w c = c"

text \<open>
  The callback \<open>ws.onmessage\<close> of channel \<open>w\<close>, which runs only while the callbacks of \<open>w\<close>
  are installed. The frame is \<open>None\<close> when \<open>JSON.parse\<close> throws, or returns \<open>null\<close> so
  that reading \<open>message.type\<close> throws: the catch ignores it. \<open>cleanup\<close> clears
  \<open>this.connectPromise\<close>, whichever promise that is; \<open>resolve\<close> is that of the promise
  the callback captured.
\<close>

definition onmessage :: "nat \<Rightarrow> WebSocketServerMessage option \<Rightarrow> WebSocketConnection \<Rightarrow> WebSocketConnection" where
  "onmessage w frame c =
     (case map_of (attached c) w of
        None \<Rightarrow> c
      | Some p \<Rightarrow>
          (case frame of
             None \<Rightarrow> c
           | Some message \<Rightarrow>
               (let c1 = handleMessage message c
                in if message = ConnectedEvent
                   then (let c2 = c1\<lparr>connectPromise := None\<rparr>
                         in c2\<lparr>effects := effects c2 @ [ResolveConnect p]\<rparr>)
                   else c1)))"

text \<open>
  The callback \<open>ws.onclose\<close> of channel \<open>w\<close> with the close code and reason of the event.
  A channel fires no event after its close event, so \<open>w\<close> leaves \<open>attached\<close>. The callback
  sets \<open>this.ws\<close> to null and clears \<open>this.connectPromise\<close> whichever channel and promise
  they hold; \<open>reject\<close> is that of the promise the callback captured.
\<close>

definition onclose :: "nat \<Rightarrow> nat \<Rightarrow> string \<Rightarrow> real \<Rightarrow> WebSocketConnection \<Rightarrow> WebSocketConnection" where
  "onclose w code reason rnd c =
     (case map_of (attached c) w of
        None \<Rightarrow> c
      | Some p \<Rightarrow>
          (let c0 = c\<lparr>attached := filter (\<lambda>(w', _). w' \<noteq> w) (attached c)\<rparr>;
               c1 = c0\<lparr>ws := None\<rparr>;
               c2 = setStatus disconnected c1;
               c3 = emit (EvDisconnected code reason) c2;
               c4 = (case connectPromise c3 of
                       None \<Rightarrow> c3
                     | Some _ \<Rightarrow>
                         (let c' = c3\<lparr>connectPromise := None\<rparr>
                          in c'\<lparr>effects := effects c' @ [RejectConnect p WebSocketError]\<rparr>))
           in if \<not> manualClose c4 \<and> autoReconnect c4 then scheduleReconnect rnd c4 else c4))"

text \<open>The callback \<open>ws.onerror\<close>; \<open>msg\<close> is \<open>errorEvent.message || "WebSocket connection error"\<close>.\<close>

definition onerror :: "nat \<Rightarrow> string \<Rightarrow> WebSocketConnection \<Rightarrow> WebSocketConnection" where
  "onerror w msg c =
     (case map_of (attached c) w of
        None \<Rightarrow> c
      | Some p \<Rightarrow> emit (EvError msg) (setStatus error_s c))"

text \<open>
  The callback of the timer \<open>scheduleReconnect\<close> sets, which runs only if the timer is
  still scheduled; the rejection of the promise \<open>connect()\<close> returns is swallowed.
\<close>

definition reconnectTimer :: "nat \<Rightarrow> string option \<Rightarrow> WebSocketConnection \<Rightarrow> WebSocketConnection" where
  "reconnectTimer t ctor c =
     (if t \<in> set (scheduled c)
      then snd (connect ctor (c\<lparr>scheduled := removeAll t (scheduled c),
                                reconnectAttempts := Suc (reconnectAttempts c)\<rparr>))
      else c)"

text \<open>
  \<open>send(data)\<close>; \<open>is_open\<close> says whether \<open>this.ws.readyState\<close> is \<open>WebSocket.OPEN\<close>.
  \<open>Inl\<close> is the throw, which leaves the connection as it was.
\<close>

definition send :: "bool \<Rightarrow> WebSocketSendPayload \<Rightarrow> WebSocketConnection \<Rightarrow> error + WebSocketConnection" where
  "send is_open data c =
     (case ws c of
        None \<Rightarrow> Inl WebSocketError
      | Some w \<Rightarrow>
          if \<not> is_open then Inl WebSocketError
          else Inr (c\<lparr>effects := effects c @ [WsSend w data]\<rparr>))"

text \<open>\<open>close()\<close>; an error of \<open>ws.close()\<close> is caught and ignored.\<close>

definition close :: "WebSocketConnection \<Rightarrow> WebSocketConnection" where
  "close c =
     (let c1 = c\<lparr>manualClose := True\<rparr>;
          c2 = (case reconnectTimeout c1 of
                  None \<Rightarrow> c1
                | Some t \<Rightarrow> c1\<lparr>scheduled := removeAll t (scheduled c1),
                               effects := effects c1 @ [ClearTimeout t],
                               reconnectTimeout := None\<rparr>);
          c3 = (case ws c2 of
                  None \<Rightarrow> c2
                | Some w \<Rightarrow> c2\<lparr>ws := None,
                               attached := filter (\<lambda>(w', _). w' \<noteq> w) (attached c2),
                               effects := effects c2 @ [DetachHandlers w, CloseWebSocket w]\<rparr>);
          c4 = c3\<lparr>connectPromise := None\<rparr>
      in setStatus disconnected c4)"

text \<open>
  Everything that can happen to a connection: a call of its three public methods, a
  callback of one of its channels, or one of its reconnect timers firing.
\<close>

datatype conn_event =
    CallConnect "string option"
  | CallSend bool WebSocketSendPayload
  | CallClose
  | OnOpen nat
  | OnMessage nat "WebSocketServerMessage option"
  | OnClose nat nat string real
  | OnError nat string
  | ReconnectTimer nat "string option"

fun conn_step :: "conn_event \<Rightarrow> WebSocketConnection \<Rightarrow> WebSocketConnection" where
  "conn_step (CallConnect ctor) c = snd (connect ctor c)"
| "conn_step (CallSend is_open data) c = (case send is_open data c of Inl _ \<Rightarrow> c | Inr c' \<Rightarrow> c')"
| "conn_step CallClose c = close c"
| "conn_step (OnOpen w) c = onopen w c"
| "conn_step (OnMessage w frame) c = onmessage w frame c"
| "conn_step (OnClose w code reason rnd) c = onclose w code reason rnd c"
| "conn_step (OnError w msg) c = onerror w msg c"
| "conn_step (ReconnectTimer t ctor) c = reconnectTimer t ctor c"

fun conn_run :: "conn_event list \<Rightarrow> WebSocketConnection \<Rightarrow> WebSocketConnection" where
  "conn_run [] c = c"
| "conn_run (e # es) c = conn_run es (conn_step e c)"

text \<open>How many channels a connection has opened so far.\<close>

definition channels_opened :: "WebSocketConnection \<Rightarrow> nat" where
  "channels_opened c =
     length (filter (\<lambda>e. case e of NewWebSocket _ \<Rightarrow> True | _ \<Rightarrow> False) (effects c))"

text \<open>
  A run of a connection with the default options: the first channel closes and a retry
  is scheduled; a caller connects again before the retry fires; the second channel
  closes and a second retry is scheduled; then \<open>close()\<close> is called.
\<close>

definition close_after_two_retries :: "conn_event list" where
  "close_after_two_retries =
     [CallConnect None, OnClose 1 1006 [] 0, CallConnect None, OnClose 4 1006 [] 0, CallClose]"

text \<open>Whether \<open>resolve\<close> or \<open>reject\<close> has been called on a connect promise.\<close>

definition connect_settled :: "nat \<Rightarrow> WebSocketConnection \<Rightarrow> bool" where
  "connect_settled p c =
     list_ex (\<lambda>e. case e of ResolveConnect q \<Rightarrow> q = p | RejectConnect q _ \<Rightarrow> q = p | _ \<Rightarrow> False)
       (effects c)"

text \<open>
  Two runs of a connection with the default options. In the first the connection is
  established and its channel then reports an error, which leaves the status \<open>error\<close>
  and the channel in place until its close event. In the second a caller connects again
  before that close event, which opens a second channel, and then the close event of the
  first channel arrives.
\<close>

definition error_on_connected :: "conn_event list" where
  "error_on_connected =
     [CallConnect None, OnMessage 1 (Some ConnectedEvent), OnError 1 ''WebSocket connection error'']"

definition close_of_replaced_channel :: "conn_event list" where
  "close_of_replaced_channel = error_on_connected @ [CallConnect None, OnClose 1 1006 [] 0]"

section \<open>The session (resources/session.ts)\<close>

definition DEFAULT_ASK_TIMEOUT :: nat where
  "DEFAULT_ASK_TIMEOUT = 5 * 60 * 1000"

definition SESSION_EXPIRED_CLOSE_CODE :: nat where
  "SESSION_EXPIRED_CLOSE_CODE = 4001"

record Recipient =
  recipientId :: string
  name_r :: string
  email :: "string option"
  externalId :: "string option"
  createdAt_r :: string

text \<open>
  The promises the session hands to its callers. \<open>AckPromise k\<close> is the promise built by
  the call of \<open>sendAndWaitForAck\<close> that reserved the sequence number \<open>k\<close>;
  \<open>QuestionPromise t\<close> is the promise built by the call of \<open>ask\<close> whose executor set the
  deadline timer \<open>t\<close>. A \<open>settlement\<close> is one call of the \<open>resolve\<close> or the \<open>reject\<close> of a
  promise; the calls are kept in the order they are made. A promise takes the outcome of
  the first call made on it and ignores every later one.
\<close>

datatype promise = AckPromise nat | QuestionPromise nat

datatype settlement = Resolved promise json | Rejected promise error

text \<open>
  An entry of \<open>pendingQuestions\<close>: \<open>caller_q\<close> stands for the pair \<open>resolve\<close>, \<open>reject\<close>.
  An entry of \<open>pendingAcks\<close> holds only such a pair, so it is a \<open>promise\<close>.
\<close>

record PendingQuestion =
  caller_q :: promise
  timeoutId :: nat

text \<open>What the callback of a deadline timer captures: \<open>messageId\<close>, \<open>reject\<close> and \<open>timeout\<close>.\<close>

record DeadlineTimer =
  messageId_d :: string
  reject_d :: promise
  timeout_d :: nat

text \<open>
  A JavaScript \<open>Map\<close> keeps its entries in insertion order: \<open>set\<close> on a key that is
  present replaces the value in place, on a new key it appends; \<open>delete\<close> removes the
  entry; \<open>get\<close> is \<open>map_of\<close>.
\<close>

definition map_set :: "'k \<Rightarrow> 'v \<Rightarrow> ('k \<times> 'v) list \<Rightarrow> ('k \<times> 'v) list" where
  "map_set k v m =
     (if k \<in> fst ` set m then map (\<lambda>(k', v'). if k' = k then (k, v) else (k', v')) m
      else m @ [(k, v)])"

definition map_delete :: "'k \<Rightarrow> ('k \<times> 'v) list \<Rightarrow> ('k \<times> 'v) list" where
  "map_delete k m = filter (\<lambda>(k', _). k' \<noteq> k) m"

text \<open>
  The fields of class \<open>Session\<close> that the correlation reads and writes, and the part of
  the runtime it acts on: \<open>conns\<close> holds every connection object the session has created
  (\<open>connection\<close> is a reference into it, or null), \<open>deadlines\<close> the deadline timers that are
  set and have neither fired nor been cleared, \<open>settled\<close> the calls of \<open>resolve\<close> and
  \<open>reject\<close> made so far.
\<close>

record Session =
  conns :: "WebSocketConnection list"
  connection :: "nat option"
  pendingQuestions :: "(string \<times> PendingQuestion) list"
  pendingAcks :: "(nat \<times> promise) list"
  ackCounter :: nat
  recipients :: "Recipient list"
  deadlines :: "(nat \<times> DeadlineTimer) list"
  nextTimer :: nat
  settled :: "settlement list"

text \<open>The constructor: \<open>data.recipients ?? []\<close>, empty maps, counter 0, no connection.\<close>

definition newSession :: "Recipient list \<Rightarrow> Session" where
  "newSession rs =
     \<lparr> conns = [], connection = None, pendingQuestions = [], pendingAcks = [],
       ackCounter = 0, recipients = rs, deadlines = [], nextTimer = 0, settled = [] \<rparr>"

definition resolve :: "promise \<Rightarrow> json \<Rightarrow> Session \<Rightarrow> Session" where
  "resolve p v s = s\<lparr>settled := settled s @ [Resolved p v]\<rparr>"

definition reject :: "promise \<Rightarrow> error \<Rightarrow> Session \<Rightarrow> Session" where
  "reject p e s = s\<lparr>settled := settled s @ [Rejected p e]\<rparr>"

definition clearTimeout :: "nat \<Rightarrow> Session \<Rightarrow> Session" where
  "clearTimeout t s = s\<lparr>deadlines := map_delete t (deadlines s)\<rparr>"

text \<open>The listener of \<open>messageAck\<close>; the argument is \<open>data.id\<close>.\<close>

definition on_messageAck :: "string \<Rightarrow> Session \<Rightarrow> Session" where
  "on_messageAck data_id s =
     (if length (pendingAcks s) > 0
      then (let firstKey = fst (hd (pendingAcks s))
            in case map_of (pendingAcks s) firstKey of
                 None \<Rightarrow> s
               | Some pending \<Rightarrow>
                   resolve pending (JString data_id)
                     (s\<lparr>pendingAcks := map_delete firstKey (pendingAcks s)\<rparr>))
      else s)"

text \<open>
  \<open>transformMessage\<close> (utils/transform.ts). \<open>parse\<close> is \<open>JSON.parse\<close>, \<open>None\<close> where it
  throws; then \<open>transformMessage\<close> throws too, which is the result \<open>None\<close>. The empty
  string is falsy, so it is not parsed.
\<close>

definition transformMessage :: "(string \<Rightarrow> json option) \<Rightarrow> ApiMessage \<Rightarrow> Message option" where
  "transformMessage parse api =
     (let mk = (\<lambda>i. \<lparr> id_msg = id_api api, role_msg = role_api api, type_msg = type_api api,
                       content_msg = content_api api, inputs_msg = i,
                       senderId = sender_id api, responseContent = response_content api,
                       respondedAt = responded_at api, respondedBy = responded_by api,
                       persist_msg = persist_api api, createdAt = created_at api \<rparr>)
      in case inputs_api api of
           None \<Rightarrow> Some (mk None)
         | Some i \<Rightarrow>
             if i = [] then Some (mk None)
             else (case parse i of None \<Rightarrow> None | Some j \<Rightarrow> Some (mk (Some j))))"

text \<open>
  \<open>handleResponse\<close>. It is called only with a response content that is not null; on
  null, \<open>JSON.parse(null)\<close> is \<open>null\<close>.
\<close>

definition handleResponse :: "(string \<Rightarrow> json option) \<Rightarrow> Message \<Rightarrow> Session \<Rightarrow> Session" where
  "handleResponse parse message s =
     (case map_of (pendingQuestions s) (id_msg message) of
        None \<Rightarrow> s
      | Some pending \<Rightarrow>
          (let s1 = clearTimeout (timeoutId pending) s;
               s2 = s1\<lparr>pendingQuestions := map_delete (id_msg message) (pendingQuestions s1)\<rparr>
           in case responseContent message of
                None \<Rightarrow> resolve (caller_q pending) JNull s2
              | Some content \<Rightarrow>
                  (case parse content of
                     Some v \<Rightarrow> resolve (caller_q pending) v s2
                   | None \<Rightarrow> resolve (caller_q pending) (JString content) s2)))"

text \<open>
  The listener of \<open>messageUpdated\<close>. An exception of \<open>transformMessage\<close> leaves the
  listener; \<open>emit\<close> catches and logs it.
\<close>

definition on_messageUpdated :: "(string \<Rightarrow> json option) \<Rightarrow> ApiMessage \<Rightarrow> Session \<Rightarrow> Session" where
  "on_messageUpdated parse raw s =
     (case transformMessage parse raw of
        None \<Rightarrow> s
      | Some message \<Rightarrow>
          if type_msg message = ask_t \<and> responseContent message \<noteq> None
          then handleResponse parse message s
          else s)"

text \<open>Rejecting every entry of a map, as the listener of \<open>disconnected\<close> and
  \<open>close\<close> both do, entry by entry in the order of the map.\<close>

definition rejectQuestions :: "error \<Rightarrow> Session \<Rightarrow> Session" where
  "rejectQuestions e s =
     foldl (\<lambda>s' (_, pending). reject (caller_q pending) e (clearTimeout (timeoutId pending) s'))
       s (pendingQuestions s)"

definition rejectAcks :: "error \<Rightarrow> Session \<Rightarrow> Session" where
  "rejectAcks e s = foldl (\<lambda>s' (_, pending). reject pending e s') s (pendingAcks s)"

text \<open>The listener of \<open>disconnected\<close>; the argument is the optional \<open>code\<close>.\<close>

definition on_disconnected :: "nat option \<Rightarrow> Session \<Rightarrow> Session" where
  "on_disconnected code s =
     (if code = Some SESSION_EXPIRED_CLOSE_CODE
      then (let s1 = (rejectQuestions SessionExpiredError s)\<lparr>pendingQuestions := []\<rparr>;
                s2 = (rejectAcks SessionExpiredError s1)\<lparr>pendingAcks := []\<rparr>
            in s2)
      else s)"

text \<open>
  \<open>setupConnectionHandlers\<close> registers the three listeners above on every connection the
  session creates; the other events have no listener of the session.
\<close>

fun listener :: "(string \<Rightarrow> json option) \<Rightarrow> WebSocketEvent \<Rightarrow> Session \<Rightarrow> Session" where
  "listener parse (EvMessageAck i) s = on_messageAck i s"
| "listener parse (EvMessageUpdated raw) s = on_messageUpdated parse raw s"
| "listener parse (EvDisconnected code reason) s = on_disconnected (Some code) s"
| "listener parse _ s = s"

fun has_listener :: "WebSocketEvent \<Rightarrow> bool" where
  "has_listener (EvMessageAck _) = True"
| "has_listener (EvMessageUpdated _) = True"
| "has_listener (EvDisconnected _ _) = True"
| "has_listener _ = False"

text \<open>The events a connection has emitted between two of its states, in order.\<close>

fun emitted_in :: "effect list \<Rightarrow> WebSocketEvent list" where
  "emitted_in [] = []"
| "emitted_in (Emit ev # es) = ev # emitted_in es"
| "emitted_in (_ # es) = emitted_in es"

definition emitted :: "WebSocketConnection \<Rightarrow> WebSocketConnection \<Rightarrow> WebSocketEvent list" where
  "emitted c c' = emitted_in (drop (length (effects c)) (effects c'))"

text \<open>
  Something happens to the connection object \<open>i\<close> of the session: the connection takes
  its step, and the listeners of the session run on what it emits. The listeners neither
  read nor write the connection, so running them after the step gives the state that
  running them inside \<open>emit\<close> gives.
\<close>

definition on_connection :: "(string \<Rightarrow> json option) \<Rightarrow> nat \<Rightarrow> conn_event \<Rightarrow> Session \<Rightarrow> Session" where
  "on_connection parse i ev s =
     (if i < length (conns s)
      then (let c = conns s ! i;
                c' = conn_step ev c
            in foldl (\<lambda>s' e. listener parse e s') (s\<lparr>conns := (conns s)[i := c']\<rparr>) (emitted c c'))
      else s)"

text \<open>
  \<open>ensureConnected\<close> in its two runs. Up to its \<open>await\<close> it creates the connection object
  if \<open>this.connection\<close> is null and calls \<open>connect()\<close> on it: the result is the promise it
  awaits. After the \<open>await\<close> it returns \<open>this.connection\<close> as that field is then: null
  if \<open>close()\<close> has run during the \<open>await\<close>, and another object if a later call has
  created one since. A reference that is not null always names an object of \<open>conns\<close>;
  the last branch of the first run is there for totality only.
\<close>

definition ensureConnected :: "string option \<Rightarrow> Session \<Rightarrow> promise_ref \<times> Session" where
  "ensureConnected ctor s =
     (let s1 = (case connection s of
                  None \<Rightarrow> s\<lparr>conns := conns s @ [createWebSocketConnection],
                              connection := Some (length (conns s))\<rparr>
                | Some _ \<Rightarrow> s);
          i = (case connection s1 of Some i \<Rightarrow> i | None \<Rightarrow> length (conns s1))
      in if i < length (conns s1)
         then (let (r, c') = connect ctor (conns s1 ! i)
               in (r, s1\<lparr>conns := (conns s1)[i := c']\<rparr>))
         else (PromiseResolved, s1))"


text \<open>
  \<open>sendAndWaitForAck\<close>; \<open>conn\<close> is its argument \<open>connection\<close>, which is what
  \<open>ensureConnected\<close> returned. Whatever \<open>connection.send(payload)\<close> throws inside the
  executor rejects the promise, and the entry stays in \<open>pendingAcks\<close>: on null, reading
  \<open>send\<close> throws a \<open>TypeError\<close>; on a connection object, \<open>send\<close> throws as defined
  above. An index that names no connection object is not a reference: that branch is
  there for totality only and sets the entry alone.
\<close>

definition sendAndWaitForAck :: "nat option \<Rightarrow> bool \<Rightarrow> WebSocketSendPayload \<Rightarrow> Session \<Rightarrow> promise \<times> Session" where
  "sendAndWaitForAck conn is_open payload s =
     (let ackId = Suc (ackCounter s);
          p = AckPromise ackId;
          s1 = s\<lparr>ackCounter := ackId\<rparr>;
          s2 = s1\<lparr>pendingAcks := map_set ackId p (pendingAcks s1)\<rparr>
      in case conn of
           None \<Rightarrow> (p, reject p TypeError s2)
         | Some i \<Rightarrow>
             if i < length (conns s2)
             then (case send is_open payload (conns s2 ! i) of
                     Inl e \<Rightarrow> (p, reject p e s2)
                   | Inr c' \<Rightarrow> (p, s2\<lparr>conns := (conns s2)[i := c']\<rparr>))
             else (p, s2))"

text \<open>
  \<open>log\<close> up to its first \<open>await\<close>, and its continuation with the connection that
  \<open>ensureConnected\<close> returned to it.
\<close>

definition log_begin :: "string option \<Rightarrow> Session \<Rightarrow> promise_ref \<times> Session" where
  "log_begin ctor s = ensureConnected ctor s"

definition log_send :: "nat option \<Rightarrow> bool \<Rightarrow> string \<Rightarrow> bool option \<Rightarrow> Session \<Rightarrow> promise \<times> Session" where
  "log_send conn is_open message persist s =
     sendAndWaitForAck conn is_open
       \<lparr> role_p = agent, type_p = log_t, content_p = message, inputs_p = None,
         persist_p = Some (case persist of None \<Rightarrow> True | Some b \<Rightarrow> b) \<rparr> s"

text \<open>
  \<open>ask\<close> in its three runs: up to the first \<open>await\<close> (\<open>Inl\<close> is the throw), from the
  connection that \<open>ensureConnected\<close> returned to the second \<open>await\<close> (\<open>inputs\<close> is
  \<open>JSON.stringify(options.inputs)\<close>), and from the acknowledgment, whose message id it
  receives, to the promise it returns.
\<close>

definition ask_begin :: "string option \<Rightarrow> Session \<Rightarrow> (error + promise_ref) \<times> Session" where
  "ask_begin ctor s =
     (if length (recipients s) = 0 then (Inl BadRequestError, s)
      else (let (r, s') = ensureConnected ctor s in (Inr r, s')))"

definition ask_send :: "nat option \<Rightarrow> bool \<Rightarrow> string \<Rightarrow> string \<Rightarrow> bool option \<Rightarrow> Session \<Rightarrow> promise \<times> Session" where
  "ask_send conn is_open question inputs persist s =
     sendAndWaitForAck conn is_open
       \<lparr> role_p = agent, type_p = ask_t, content_p = question, inputs_p = Some inputs,
         persist_p = Some (case persist of None \<Rightarrow> True | Some b \<Rightarrow> b) \<rparr> s"

definition ask_wait :: "string \<Rightarrow> nat option \<Rightarrow> Session \<Rightarrow> promise \<times> Session" where
  "ask_wait messageId timeout_opt s =
     (let timeout = (case timeout_opt of None \<Rightarrow> DEFAULT_ASK_TIMEOUT | Some t \<Rightarrow> t);
          t = nextTimer s;
          p = QuestionPromise t;
          s1 = s\<lparr>nextTimer := Suc t,
                 deadlines := deadlines s @
                   [(t, \<lparr>messageId_d = messageId, reject_d = p, timeout_d = timeout\<rparr>)]\<rparr>
      in (p, s1\<lparr>pendingQuestions :=
                  map_set messageId \<lparr>caller_q = p, timeoutId = t\<rparr> (pendingQuestions s1)\<rparr>))"

text \<open>The callback of the deadline timer \<open>t\<close>, which runs only if \<open>t\<close> is still set.\<close>

definition deadline :: "nat \<Rightarrow> Session \<Rightarrow> Session" where
  "deadline t s =
     (case map_of (deadlines s) t of
        None \<Rightarrow> s
      | Some d \<Rightarrow>
          (let s1 = s\<lparr>deadlines := map_delete t (deadlines s)\<rparr>;
               s2 = s1\<lparr>pendingQuestions := map_delete (messageId_d d) (pendingQuestions s1)\<rparr>
           in reject (reject_d d) TimeoutError s2))"

text \<open>\<open>close()\<close> of the session.\<close>

definition close_session :: "Session \<Rightarrow> Session" where
  "close_session s =
     (let s1 = (rejectQuestions (JsError ''Session closed'') s)\<lparr>pendingQuestions := []\<rparr>;
          s2 = (rejectAcks (JsError ''Session closed'') s1)\<lparr>pendingAcks := []\<rparr>
      in case connection s2 of
           None \<Rightarrow> s2
         | Some i \<Rightarrow>
             (if i < length (conns s2) then s2\<lparr>conns := (conns s2)[i := close (conns s2 ! i)]\<rparr>
              else s2)\<lparr>connection := None\<rparr>)"

text \<open>
  Everything that can happen to a session: the runs of its public methods between two
  \<open>await\<close>s, a deadline timer firing, and whatever happens to one of its connections.
  The first argument of \<open>AskSend\<close> and of \<open>LogSend\<close> is the connection that
  \<open>ensureConnected\<close> returned to that call, the second whether the channel is open.
\<close>

datatype session_event =
    AskBegin "string option"
  | AskSend "nat option" bool string string "bool option"
  | AskWait string "nat option"
  | LogBegin "string option"
  | LogSend "nat option" bool string "bool option"
  | Deadline nat
  | Close
  | Connection nat conn_event

fun session_step :: "(string \<Rightarrow> json option) \<Rightarrow> session_event \<Rightarrow> Session \<Rightarrow> Session" where
  "session_step parse (AskBegin ctor) s = snd (ask_begin ctor s)"
| "session_step parse (AskSend conn is_open question inputs persist) s =
     snd (ask_send conn is_open question inputs persist s)"
| "session_step parse (AskWait messageId timeout_opt) s = snd (ask_wait messageId timeout_opt s)"
| "session_step parse (LogBegin ctor) s = snd (log_begin ctor s)"
| "session_step parse (LogSend conn is_open message persist) s =
     snd (log_send conn is_open message persist s)"
| "session_step parse (Deadline t) s = deadline t s"
| "session_step parse Close s = close_session s"
| "session_step parse (Connection i ev) s = on_connection parse i ev s"

fun session_run :: "(string \<Rightarrow> json option) \<Rightarrow> session_event list \<Rightarrow> Session \<Rightarrow> Session" where
  "session_run parse [] s = s"
| "session_run parse (e # es) s = session_run parse es (session_step parse e s)"

section \<open>The input and response contract (types/inputs.ts)\<close>

record SelectOption =
  value_o :: string
  label_o :: string
  description_o :: "string option"

datatype select_options = StringOptions "string list" | ObjectOptions "SelectOption list"

text \<open>
  The three interfaces of the union \<open>Input\<close>, each with its fields in the order of the
  source; an optional field is an \<open>option\<close>. The first field is \<open>name\<close>.
\<close>

datatype Input =
    TextInput string "string option" "string option" "bool option" "bool option" "nat option"
  | ConfirmInput string "string option" "bool option"
  | SelectInput string "string option" select_options "bool option" "bool option"

fun name_of :: "Input \<Rightarrow> string" where
  "name_of (TextInput n _ _ _ _ _) = n"
| "name_of (ConfirmInput n _ _) = n"
| "name_of (SelectInput n _ _ _ _) = n"

text \<open>The types a response field can have: \<open>boolean\<close>, \<open>string\<close> and \<open>string[]\<close>.\<close>

datatype response_type = boolean_t | string_t | string_array_t

text \<open>
  The conditional type \<open>ResponseTypeFromInput\<close>: \<open>T["multiple"] extends true\<close> holds only
  of the literal \<open>true\<close>, not of \<open>false\<close> and not of an absent field.
\<close>

fun ResponseTypeFromInput :: "Input \<Rightarrow> response_type" where
  "ResponseTypeFromInput (ConfirmInput _ _ _) = boolean_t"
| "ResponseTypeFromInput (SelectInput _ _ _ _ multiple) =
     (if multiple = Some True then string_array_t else string_t)"
| "ResponseTypeFromInput (TextInput _ _ _ _ _ _) = string_t"

text \<open>
  The mapped type \<open>ResponseFromInputs\<close>, on a tuple of descriptors with literal names
  (\<open>as const\<close>): one property for each name that occurs in the tuple, typed by the union
  of \<open>ResponseTypeFromInput\<close> over the members of that name. A union is the set of its
  alternatives; a name that does not occur is no property.
\<close>

definition ResponseFromInputs :: "Input list \<Rightarrow> string \<Rightarrow> response_type set option" where
  "ResponseFromInputs T n =
     (let Ks = filter (\<lambda>K. name_of K = n) T
      in if Ks = [] then None else Some (ResponseTypeFromInput ` set Ks))"

text \<open>
  The source has no check of a decoded value against the derived record. The two
  definitions below follow the words of the specification, section 4.3, to state its
  claim about such a check: a record with exactly the declared field names, a boolean for
  a confirm, a sequence of strings for a select with the multiple flag, a string for any
  other select and for a text.
\<close>

fun spec_has_response_type :: "json \<Rightarrow> response_type \<Rightarrow> bool" where
  "spec_has_response_type (JBool _) boolean_t = True"
| "spec_has_response_type (JString _) string_t = True"
| "spec_has_response_type (JArray vs) string_array_t = list_all (\<lambda>v. case v of JString _ \<Rightarrow> True | _ \<Rightarrow> False) vs"
| "spec_has_response_type _ _ = False"

definition spec_conforms_to_shape :: "Input list \<Rightarrow> json \<Rightarrow> bool" where
  "spec_conforms_to_shape T v =
     (case v of
        JObject members \<Rightarrow>
          set (map fst members) = set (map name_of T) \<and>
          list_all (\<lambda>K. case map_of members (name_of K) of
                          Some x \<Rightarrow> spec_has_response_type x (ResponseTypeFromInput K)
                        | None \<Rightarrow> False) T
      | _ \<Rightarrow> False)"

section \<open>A fragment of \<open>JSON.parse\<close>\<close>

text \<open>
  \<open>JSON.parse\<close> is a built-in of the runtime; the session is stated over any function
  \<open>parse\<close> in its place. \<open>JSON_parse\<close> below is \<open>JSON.parse\<close> on a fragment of JSON, for
  evaluating the session on concrete payloads: white space, the three literals, integers
  of at most 15 digits (no fraction, no exponent, no negative zero), strings of printable
  ASCII without escapes, arrays, and objects none of whose keys is an array index such as
  \<open>0\<close> or \<open>17\<close> (a repeated key keeps its first place and its last value). On a text
  of the fragment it returns what \<open>JSON.parse\<close> returns, and it returns \<open>None\<close> where
  \<open>JSON.parse\<close> throws. On valid JSON outside the fragment it returns \<open>None\<close> as well,
  except for an object with keys that are array indices: its members are kept in the
  order of the text, where the runtime lists those keys first, in numeric order.
\<close>

definition is_ws :: "char \<Rightarrow> bool" where
  "is_ws c = (c = CHR '' '' \<or> c = CHR 0x09 \<or> c = CHR 0x0A \<or> c = CHR 0x0D)"

definition skip_ws :: "string \<Rightarrow> string" where
  "skip_ws cs = dropWhile is_ws cs"

definition is_digit :: "char \<Rightarrow> bool" where
  "is_digit c = (48 \<le> (of_char c :: nat) \<and> (of_char c :: nat) \<le> 57)"

definition digits_value :: "string \<Rightarrow> nat" where
  "digits_value ds = foldl (\<lambda>a d. 10 * a + ((of_char d :: nat) - 48)) 0 ds"

definition parse_number :: "string \<Rightarrow> (json \<times> string) option" where
  "parse_number cs =
     (let neg = (cs \<noteq> [] \<and> hd cs = CHR ''-'');
          r = (if neg then tl cs else cs);
          ds = takeWhile is_digit r;
          rest = dropWhile is_digit r
      in if ds = [] \<or> (length ds > 1 \<and> hd ds = CHR ''0'') \<or> length ds > 15
            \<or> (neg \<and> digits_value ds = 0)
            \<or> (rest \<noteq> [] \<and> (hd rest = CHR ''.'' \<or> hd rest = CHR ''e'' \<or> hd rest = CHR ''E''))
         then None
         else Some (JNumber (if neg then - int (digits_value ds) else int (digits_value ds)), rest))"

text \<open>The rest of a string literal after its opening quote.\<close>

definition parse_string :: "string \<Rightarrow> (string \<times> string) option" where
  "parse_string cs =
     (let body = takeWhile (\<lambda>c. c \<noteq> CHR 0x22) cs;
          rest = dropWhile (\<lambda>c. c \<noteq> CHR 0x22) cs
      in if rest = [] \<or> list_ex (\<lambda>c. c = CHR 0x5C \<or> (of_char c :: nat) < 32 \<or> (of_char c :: nat) > 126) body
         then None
         else Some (body, tl rest))"

text \<open>
  The first argument bounds the depth of the recursion; \<open>JSON_parse\<close> starts it above
  the length of the text, which no nesting exceeds.
\<close>

fun parse_value :: "nat \<Rightarrow> string \<Rightarrow> (json \<times> string) option"
  and parse_elements :: "nat \<Rightarrow> string \<Rightarrow> (json list \<times> string) option"
  and parse_members :: "nat \<Rightarrow> string \<Rightarrow> ((string \<times> json) list \<times> string) option"
where
  "parse_value 0 cs = None"
| "parse_value (Suc n) cs =
     (let ts = skip_ws cs
      in if ts = [] then None
         else if take 4 ts = ''null'' then Some (JNull, drop 4 ts)
         else if take 4 ts = ''true'' then Some (JBool True, drop 4 ts)
         else if take 5 ts = ''false'' then Some (JBool False, drop 5 ts)
         else if hd ts = CHR 0x22 then
           (case parse_string (tl ts) of
              None \<Rightarrow> None
            | Some (str, r) \<Rightarrow> Some (JString str, r))
         else if hd ts = CHR ''['' then
           (if skip_ws (tl ts) \<noteq> [] \<and> hd (skip_ws (tl ts)) = CHR '']''
            then Some (JArray [], tl (skip_ws (tl ts)))
            else (case parse_elements n (tl ts) of
                    None \<Rightarrow> None
                  | Some (vs, r) \<Rightarrow> Some (JArray vs, r)))
         else if hd ts = CHR ''{'' then
           (if skip_ws (tl ts) \<noteq> [] \<and> hd (skip_ws (tl ts)) = CHR ''}''
            then Some (JObject [], tl (skip_ws (tl ts)))
            else (case parse_members n (tl ts) of
                    None \<Rightarrow> None
                  | Some (ms, r) \<Rightarrow> Some (JObject (foldl (\<lambda>acc (k, v). map_set k v acc) [] ms), r)))
         else parse_number ts)"
| "parse_elements 0 cs = None"
| "parse_elements (Suc n) cs =
     (case parse_value n cs of
        None \<Rightarrow> None
      | Some (v, r) \<Rightarrow>
          (let ts = skip_ws r
           in if ts = [] then None
              else if hd ts = CHR '']'' then Some ([v], tl ts)
              else if hd ts = CHR '','' then
                (case parse_elements n (tl ts) of
                   None \<Rightarrow> None
                 | Some (vs, r') \<Rightarrow> Some (v # vs, r'))
              else None))"
| "parse_members 0 cs = None"
| "parse_members (Suc n) cs =
     (let ts = skip_ws cs
      in if ts = [] \<or> hd ts \<noteq> CHR 0x22 then None
         else (case parse_string (tl ts) of
                 None \<Rightarrow> None
               | Some (k, r1) \<Rightarrow>
                   (let t1 = skip_ws r1
                    in if t1 = [] \<or> hd t1 \<noteq> CHR '':'' then None
                       else (case parse_value n (tl t1) of
                               None \<Rightarrow> None
                             | Some (v, r2) \<Rightarrow>
                                 (let t2 = skip_ws r2
                                  in if t2 = [] then None
                                     else if hd t2 = CHR ''}'' then Some ([(k, v)], tl t2)
                                     else if hd t2 = CHR '','' then
                                       (case parse_members n (tl t2) of
                                          None \<Rightarrow> None
                                        | Some (ms, r3) \<Rightarrow> Some ((k, v) # ms, r3))
                                     else None)))))"

definition JSON_parse :: "string \<Rightarrow> json option" where
  "JSON_parse text =
     (case parse_value (Suc (length text)) text of
        None \<Rightarrow> None
      | Some (v, r) \<Rightarrow> if skip_ws r = [] then Some v else None)"

section \<open>What is observed of a session\<close>

text \<open>The sequence numbers whose acknowledgment promise a listener has resolved, in order.\<close>

fun ack_resolutions :: "settlement list \<Rightarrow> nat list" where
  "ack_resolutions [] = []"
| "ack_resolutions (Resolved (AckPromise k) _ # xs) = k # ack_resolutions xs"
| "ack_resolutions (_ # xs) = ack_resolutions xs"

text \<open>The calls of \<open>resolve\<close> and \<open>reject\<close> on acknowledgment promises, in order.\<close>

fun is_ack_call :: "settlement \<Rightarrow> bool" where
  "is_ack_call (Resolved (AckPromise _) _) = True"
| "is_ack_call (Rejected (AckPromise _) _) = True"
| "is_ack_call _ = False"

definition ack_calls :: "settlement list \<Rightarrow> settlement list" where
  "ack_calls xs = filter is_ack_call xs"

text \<open>The question promises that have been resolved or rejected, one item for each call.\<close>

fun question_settlements :: "settlement list \<Rightarrow> nat list" where
  "question_settlements [] = []"
| "question_settlements (Resolved (QuestionPromise t) _ # xs) = t # question_settlements xs"
| "question_settlements (Rejected (QuestionPromise t) _ # xs) = t # question_settlements xs"
| "question_settlements (_ # xs) = question_settlements xs"

text \<open>The value \<open>handleResponse\<close> passes to \<open>resolve\<close> for a message.\<close>

definition resolved_value :: "(string \<Rightarrow> json option) \<Rightarrow> Message \<Rightarrow> json" where
  "resolved_value parse message =
     (case responseContent message of
        None \<Rightarrow> JNull
      | Some content \<Rightarrow> (case parse content of Some v \<Rightarrow> v | None \<Rightarrow> JString content))"

fun is_question :: "promise \<Rightarrow> bool" where
  "is_question (QuestionPromise _) = True"
| "is_question (AckPromise _) = False"

text \<open>
  The kinds of event the claims name: a run of \<open>sendAndWaitForAck\<close>, the arrival of an
  acknowledgment frame, and the close of a channel with the session-expired code.
\<close>

fun is_send :: "session_event \<Rightarrow> bool" where
  "is_send (AskSend _ _ _ _ _) = True"
| "is_send (LogSend _ _ _ _) = True"
| "is_send _ = False"


fun is_ack_arrival :: "session_event \<Rightarrow> bool" where
  "is_ack_arrival (Connection _ (OnMessage _ (Some (MessageAckEvent _)))) = True"
| "is_ack_arrival _ = False"

fun is_invalidation :: "session_event \<Rightarrow> bool" where
  "is_invalidation (Connection _ (OnClose _ code _ _)) = (code = SESSION_EXPIRED_CLOSE_CODE)"
| "is_invalidation _ = False"

text \<open>
  Three invariants of a session. The first: the entries of \<open>pendingAcks\<close> hold
  acknowledgment promises, those of \<open>pendingQuestions\<close> and the deadline timers hold
  question promises. The second: the sequence numbers resolved so far, followed by the
  keys of \<open>pendingAcks\<close>, increase strictly and stay within the counter, and the entry of
  key \<open>k\<close> holds the promise of the send that reserved \<open>k\<close>. The third: the keys of
  \<open>pendingQuestions\<close> are distinct, each entry has its deadline timer set, with its
  message id and its caller; timer handles are distinct and below the next handle; a
  question promise that has been settled has no timer set and has been settled once.
\<close>

definition kinds_inv :: "Session \<Rightarrow> bool" where
  "kinds_inv s =
     (list_all (\<lambda>(k, p). \<not> is_question p) (pendingAcks s) \<and>
      list_all (\<lambda>(m, q). is_question (caller_q q)) (pendingQuestions s) \<and>
      list_all (\<lambda>(t, d). is_question (reject_d d)) (deadlines s))"

definition acks_inv :: "Session \<Rightarrow> bool" where
  "acks_inv s =
     (sorted_wrt (<) (ack_resolutions (settled s) @ map fst (pendingAcks s)) \<and>
      list_all (\<lambda>k. k \<le> ackCounter s) (ack_resolutions (settled s) @ map fst (pendingAcks s)) \<and>
      list_all (\<lambda>(k, p). p = AckPromise k) (pendingAcks s))"

definition questions_inv :: "Session \<Rightarrow> bool" where
  "questions_inv s =
     (distinct (map fst (pendingQuestions s)) \<and>
      list_all (\<lambda>(m, q). case map_of (deadlines s) (timeoutId q) of
                            None \<Rightarrow> False
                          | Some d \<Rightarrow> messageId_d d = m \<and> reject_d d = caller_q q)
               (pendingQuestions s) \<and>
      distinct (map fst (deadlines s)) \<and>
      list_all (\<lambda>(t, d). t < nextTimer s \<and> reject_d d = QuestionPromise t) (deadlines s) \<and>
      list_all (\<lambda>t. t < nextTimer s \<and> t \<notin> fst ` set (deadlines s))
               (question_settlements (settled s)) \<and>
      distinct (question_settlements (settled s)))"

definition session_inv :: "Session \<Rightarrow> bool" where
  "session_inv s = (kinds_inv s \<and> acks_inv s \<and> questions_inv s)"

text \<open>The connection of a session after its handshake, and the payload of a notification.\<close>

definition connected_connection :: WebSocketConnection where
  "connected_connection =
     \<lparr> ws = Some 1, reconnectAttempts = 0, reconnectTimeout = None, manualClose = False,
       status = connected_s, isConnected = True, connectPromise = None,
       autoReconnect = True, maxReconnectAttempts = 5, reconnectDelay = 1000,
       attached = [(1, 0)], scheduled = [], fresh = 2,
       effects = [Emit (EvStatusChange connecting), NewWebSocket 1,
                  Emit (EvStatusChange connected_s), Emit EvConnected, ResolveConnect 0] \<rparr>"

definition log_payload :: "string \<Rightarrow> WebSocketSendPayload" where
  "log_payload message =
     \<lparr> role_p = agent, type_p = log_t, content_p = message, inputs_p = None,
       persist_p = Some True \<rparr>"

text \<open>
  The descriptor list of the example of the specification, section 8, and its
  \<open>JSON.stringify\<close>.
\<close>

definition example_inputs :: "Input list" where
  "example_inputs =
     [ConfirmInput ''approved'' None None, TextInput ''notes'' None None None None None]"

definition example_inputs_json :: string where
  \<open>example_inputs_json =
     ''[{"type":"confirm","name":"approved"},{"type":"text","name":"notes"}]''\<close>

text \<open>
  Two runs of a session used as concrete inputs. In the first, two notifications are sent
  on a connected session. In the second, a session with one recipient asks a question,
  with the example's descriptor list, receives its acknowledgment \<open>m1\<close>, waits for the
  response, and sends a notification.
\<close>

definition two_logs :: "session_event list" where
  "two_logs =
     [LogBegin None, Connection 0 (OnMessage 1 (Some ConnectedEvent)),
      LogSend (Some 0) True ''a'' None, LogSend (Some 0) True ''b'' None]"

definition two_logs_state :: Session where
  "two_logs_state =
     \<lparr> conns = [connected_connection\<lparr>effects := effects connected_connection @
                 [WsSend 1 (log_payload ''a''), WsSend 1 (log_payload ''b'')]\<rparr>],
       connection = Some 0, pendingQuestions = [],
       pendingAcks = [(1, AckPromise 1), (2, AckPromise 2)], ackCounter = 2,
       recipients = [], deadlines = [], nextTimer = 0, settled = [] \<rparr>"

definition a_recipient :: Recipient where
  "a_recipient =
     \<lparr> recipientId = ''rec_1'', name_r = ''Ann'', email = None, externalId = None,
       createdAt_r = ''2026-01-01'' \<rparr>"

definition question_and_log :: "session_event list" where
  "question_and_log =
     [AskBegin None, Connection 0 (OnMessage 1 (Some ConnectedEvent)),
      AskSend (Some 0) True ''Deploy?'' example_inputs_json None,
      Connection 0 (OnMessage 1 (Some (MessageAckEvent ''m1''))),
      AskWait ''m1'' None,
      LogSend (Some 0) True ''a'' None]"

definition ask_payload :: WebSocketSendPayload where
  "ask_payload =
     \<lparr> role_p = agent, type_p = ask_t, content_p = ''Deploy?'',
       inputs_p = Some example_inputs_json,
       persist_p = Some True \<rparr>"

definition waiting_state :: Session where
  "waiting_state =
     \<lparr> conns = [connected_connection\<lparr>effects := effects connected_connection @
                 [WsSend 1 ask_payload, Emit (EvMessageAck ''m1''), WsSend 1 (log_payload ''a'')]\<rparr>],
       connection = Some 0,
       pendingQuestions = [(''m1'', \<lparr>caller_q = QuestionPromise 0, timeoutId = 0\<rparr>)],
       pendingAcks = [(2, AckPromise 2)], ackCounter = 2,
       recipients = [a_recipient],
       deadlines = [(0, \<lparr>messageId_d = ''m1'', reject_d = QuestionPromise 0, timeout_d = 300000\<rparr>)],
       nextTimer = 1, settled = [Resolved (AckPromise 1) (JString ''m1'')] \<rparr>"

text \<open>
  A response-bearing update for the question \<open>m1\<close> with a given response content, on the
  wire and after \<open>transformMessage\<close>.
\<close>

definition a_response :: "string \<Rightarrow> ApiMessage" where
  "a_response content =
     \<lparr> id_api = ''m1'', role_api = agent, type_api = ask_t, content_api = ''Deploy?'',
       inputs_api = None, sender_id = None, response_content = Some content,
       responded_at = Some ''2026-01-02'', responded_by = Some ''rec_1'', persist_api = True,
       created_at = ''2026-01-01'' \<rparr>"

definition a_response_message :: "string \<Rightarrow> Message" where
  "a_response_message content =
     \<lparr> id_msg = ''m1'', role_msg = agent, type_msg = ask_t, content_msg = ''Deploy?'',
       inputs_msg = None, senderId = None, responseContent = Some content,
       respondedAt = Some ''2026-01-02'', respondedBy = Some ''rec_1'', persist_msg = True,
       createdAt = ''2026-01-01'' \<rparr>"

text \<open>
  A run in which a new session sends a notification \<open>a\<close> and receives its acknowledgment
  \<open>m_a\<close>, with the connection and the session it ends in.
\<close>

definition first_log :: "session_event list" where
  "first_log =
     [LogBegin None, Connection 0 (OnMessage 1 (Some ConnectedEvent)),
      LogSend (Some 0) True ''a'' None,
      Connection 0 (OnMessage 1 (Some (MessageAckEvent ''m_a'')))]"

definition first_log_connection :: WebSocketConnection where
  "first_log_connection =
     connected_connection\<lparr>effects := effects connected_connection @
        [WsSend 1 (log_payload ''a''), Emit (EvMessageAck ''m_a'')]\<rparr>"

definition first_log_state :: Session where
  "first_log_state =
     \<lparr> conns = [first_log_connection],
       connection = Some 0, pendingQuestions = [], pendingAcks = [], ackCounter = 1,
       recipients = [], deadlines = [], nextTimer = 0,
       settled = [Resolved (AckPromise 1) (JString ''m_a'')] \<rparr>"

text \<open>
  That run continued. The channel starts closing: it is no longer open, and its close
  event has not fired, so the connection still counts as connected. A notification \<open>x\<close>
  is begun, \<open>connect()\<close> returns a fulfilled promise, and \<open>send\<close> throws. The channel
  closes with code 1006, the retry timer fires, and the new channel completes its
  handshake. A notification \<open>y\<close> is sent on the new channel. The two connections are
  the one after the close and the one after the second handshake.
\<close>

definition closing_connection :: WebSocketConnection where
  "closing_connection =
     first_log_connection\<lparr>ws := None, status := disconnected, isConnected := False,
       reconnectTimeout := Some 2, attached := [], scheduled := [2], fresh := 3,
       effects := effects first_log_connection @
         [Emit (EvStatusChange disconnected), Emit (EvDisconnected 1006 []), SetTimeout 2 1000]\<rparr>"

definition reconnected_connection :: WebSocketConnection where
  "reconnected_connection =
     closing_connection\<lparr>ws := Some 4, status := connected_s, isConnected := True,
       attached := [(4, 3)], scheduled := [], fresh := 5,
       effects := effects closing_connection @
         [Emit (EvStatusChange connecting), NewWebSocket 4,
          Emit (EvStatusChange connected_s), Emit EvConnected, ResolveConnect 3]\<rparr>"

definition send_on_closing_channel :: "session_event list" where
  "send_on_closing_channel =
     first_log @
     [LogBegin None, LogSend (Some 0) False ''x'' None,
      Connection 0 (OnClose 1 1006 [] 0),
      Connection 0 (ReconnectTimer 2 None),
      Connection 0 (OnMessage 4 (Some ConnectedEvent)),
      LogBegin None, LogSend (Some 0) True ''y'' None]"

text \<open>The frames a connection has transmitted, each with its channel, in order.\<close>

fun sent_in :: "effect list \<Rightarrow> (nat \<times> WebSocketSendPayload) list" where
  "sent_in [] = []"
| "sent_in (WsSend w d # es) = (w, d) # sent_in es"
| "sent_in (_ # es) = sent_in es"

text \<open>The calls of \<open>resolve\<close> and \<open>reject\<close> on one promise, in order.\<close>

fun settles :: "promise \<Rightarrow> settlement \<Rightarrow> bool" where
  "settles p (Resolved p' _) = (p' = p)"
| "settles p (Rejected p' _) = (p' = p)"

definition calls_on :: "promise \<Rightarrow> settlement list \<Rightarrow> settlement list" where
  "calls_on p xs = filter (settles p) xs"

section \<open>Properties of the session\<close>

subsection \<open>JavaScript maps\<close>

lemma map_set_new: "k \<notin> fst ` set m \<Longrightarrow> map_set k v m = m @ [(k, v)]"
  by (simp add: map_set_def)

lemma map_set_keys:
  "map fst (map_set k v m) = (if k \<in> fst ` set m then map fst m else map fst m @ [k])"
  by (induction m) (auto simp add: map_set_def)

lemma map_set_set:
  "set (map_set k v m) \<subseteq> insert (k, v) (set m)"
  by (auto simp add: map_set_def split: if_splits)

lemma map_of_replace:
  "map_of (map (\<lambda>(k', v'). if k' = k then (k, v) else (k', v')) m) k' =
     (if k' = k \<and> k \<in> fst ` set m then Some v else map_of m k')"
proof (induction m)
  case Nil
  then show ?case by simp
next
  case (Cons x m)
  obtain a b where x: "x = (a, b)" by (cases x)
  show ?case
  proof (cases "a = k")
    case True
    then show ?thesis unfolding x using Cons.IH by (cases "k' = k") simp_all
  next
    case False
    then show ?thesis unfolding x using Cons.IH by (cases "k' = k") (simp_all add: image_iff)
  qed
qed

lemma map_of_map_set: "map_of (map_set k v m) k' = (if k' = k then Some v else map_of m k')"
proof (cases "k \<in> fst ` set m")
  case False
  then have "map_of m k = None" by (simp add: map_of_eq_None_iff)
  with False show ?thesis by (simp add: map_set_new map_add_def split: option.splits)
next
  case True
  then show ?thesis by (simp add: map_set_def map_of_replace)
qed

lemma map_delete_keys: "map fst (map_delete k m) = filter (\<lambda>k'. k' \<noteq> k) (map fst m)"
  by (induction m) (auto simp add: map_delete_def)

lemma map_delete_set: "set (map_delete k m) = {x \<in> set m. fst x \<noteq> k}"
  by (auto simp add: map_delete_def)

lemma map_of_map_delete: "map_of (map_delete k m) k' = (if k' = k then None else map_of m k')"
  by (induction m) (auto simp add: map_delete_def)

lemma map_delete_absent: "k \<notin> fst ` set m \<Longrightarrow> map_delete k m = m"
  by (induction m) (auto simp add: map_delete_def)

lemma map_delete_head: "k \<notin> fst ` set rest \<Longrightarrow> map_delete k ((k, v) # rest) = rest"
  using map_delete_absent[of k rest] by (simp add: map_delete_def)

subsection \<open>Reading the settlements\<close>

lemma ack_resolutions_append [simp]:
  "ack_resolutions (xs @ ys) = ack_resolutions xs @ ack_resolutions ys"
  by (induction xs rule: ack_resolutions.induct) simp_all

lemma question_settlements_append [simp]:
  "question_settlements (xs @ ys) = question_settlements xs @ question_settlements ys"
  by (induction xs rule: question_settlements.induct) simp_all

lemma ack_calls_append [simp]: "ack_calls (xs @ ys) = ack_calls xs @ ack_calls ys"
  by (simp add: ack_calls_def)

lemma ack_resolutions_rejections [simp]:
  "ack_resolutions (map (\<lambda>x. Rejected (f x) e) xs) = []"
  by (induction xs) simp_all

lemma question_settlements_acks:
  "list_all (\<lambda>p. \<not> is_question p) ps \<Longrightarrow> question_settlements (map (\<lambda>p. Rejected p e) ps) = []"
proof (induction ps)
  case Nil
  then show ?case by simp
next
  case (Cons p ps)
  then show ?case by (cases p) simp_all
qed

subsection \<open>The two rejecting folds in closed form\<close>

lemma rejectAcks_fold:
  "foldl (\<lambda>s' (_, pending). reject pending e s') s xs =
     s\<lparr>settled := settled s @ map (\<lambda>(_, pending). Rejected pending e) xs\<rparr>"
  by (induction xs arbitrary: s) (auto simp add: reject_def)

lemma rejectAcks_eq:
  "rejectAcks e s = s\<lparr>settled := settled s @ map (\<lambda>(_, pending). Rejected pending e) (pendingAcks s)\<rparr>"
  by (simp add: rejectAcks_def rejectAcks_fold)

lemma rejectQuestions_fold:
  "foldl (\<lambda>s' (_, pending). s'\<lparr>deadlines := map_delete (timeoutId pending) (deadlines s'),
                                 settled := settled s' @ [Rejected (caller_q pending) e]\<rparr>) s xs =
     s\<lparr>deadlines := filter (\<lambda>(t, _). t \<notin> (\<lambda>x. timeoutId (snd x)) ` set xs) (deadlines s),
       settled := settled s @ map (\<lambda>(_, pending). Rejected (caller_q pending) e) xs\<rparr>"
proof (induction xs arbitrary: s)
  case Nil
  then show ?case by simp
next
  case (Cons x xs)
  obtain m q where x: "x = (m, q)" by (cases x)
  have f: "filter (\<lambda>(t, _). t \<notin> (\<lambda>x. timeoutId (snd x)) ` set xs) (map_delete (timeoutId q) (deadlines s))
         = filter (\<lambda>(t, _). t \<noteq> timeoutId q \<and> t \<notin> (\<lambda>x. timeoutId (snd x)) ` set xs) (deadlines s)"
    unfolding map_delete_def filter_filter by (rule filter_cong) auto
  show ?case
    unfolding x foldl_Cons by (simp only: Cons.IH prod.case) (simp add: f)
qed

lemma rejectQuestions_eq:
  "rejectQuestions e s =
     s\<lparr>deadlines := filter (\<lambda>(t, _). t \<notin> (\<lambda>x. timeoutId (snd x)) ` set (pendingQuestions s)) (deadlines s),
       settled := settled s @ map (\<lambda>(_, pending). Rejected (caller_q pending) e) (pendingQuestions s)\<rparr>"
  by (simp add: rejectQuestions_def reject_def clearTimeout_def rejectQuestions_fold)


subsection \<open>The invariants do not read the connections\<close>

lemma inv_conns [simp]:
  "kinds_inv (s\<lparr>conns := x\<rparr>) = kinds_inv s"
  "acks_inv (s\<lparr>conns := x\<rparr>) = acks_inv s"
  "questions_inv (s\<lparr>conns := x\<rparr>) = questions_inv s"
  "kinds_inv (s\<lparr>connection := y\<rparr>) = kinds_inv s"
  "acks_inv (s\<lparr>connection := y\<rparr>) = acks_inv s"
  "questions_inv (s\<lparr>connection := y\<rparr>) = questions_inv s"
  by (simp_all add: kinds_inv_def acks_inv_def questions_inv_def)

lemma session_inv_conns [simp]:
  "session_inv (s\<lparr>conns := x\<rparr>) = session_inv s"
  "session_inv (s\<lparr>connection := y\<rparr>) = session_inv s"
  by (simp_all add: session_inv_def)

lemma newSession_inv: "session_inv (newSession rs)"
  by (simp add: session_inv_def kinds_inv_def acks_inv_def questions_inv_def newSession_def)

subsection \<open>Acknowledgments\<close>

lemma acks_inv_head:
  assumes "acks_inv s" "pendingAcks s = (k, p) # rest"
  shows "p = AckPromise k" and "k \<notin> fst ` set rest" and "\<forall>k' \<in> fst ` set rest. k < k'"
    and "map_of (pendingAcks s) k = Some p"
proof -
  from assms have "sorted_wrt (<) (ack_resolutions (settled s) @ k # map fst rest)"
    by (simp add: acks_inv_def)
  then have "sorted_wrt (<) (k # map fst rest)"
    by (simp only: sorted_wrt_append)
  then show lt: "\<forall>k' \<in> fst ` set rest. k < k'" by simp
  then show "k \<notin> fst ` set rest" by blast
  from assms show "p = AckPromise k" by (simp add: acks_inv_def)
  from assms(2) show "map_of (pendingAcks s) k = Some p" by simp
qed

lemma acks_inv_bounds:
  assumes "acks_inv s"
  shows "(k, p) \<in> set (pendingAcks s) \<Longrightarrow> k \<le> ackCounter s"
    and "k \<in> set (ack_resolutions (settled s)) \<Longrightarrow> k \<le> ackCounter s"
proof -
  from assms have b: "\<forall>x \<in> set (ack_resolutions (settled s)) \<union> fst ` set (pendingAcks s). x \<le> ackCounter s"
    by (simp add: acks_inv_def list_all_iff)
  show "(k, p) \<in> set (pendingAcks s) \<Longrightarrow> k \<le> ackCounter s"
  proof -
    assume "(k, p) \<in> set (pendingAcks s)"
    then have "k \<in> fst ` set (pendingAcks s)" by (rule image_eqI[rotated]) simp
    with b show ?thesis by blast
  qed
  show "k \<in> set (ack_resolutions (settled s)) \<Longrightarrow> k \<le> ackCounter s"
    using b by blast
qed

lemma on_messageAck_empty: "pendingAcks s = [] \<Longrightarrow> on_messageAck d s = s"
  by (simp add: on_messageAck_def)

lemma on_messageAck_head:
  assumes "acks_inv s" "pendingAcks s = (k, p) # rest"
  shows "on_messageAck d s =
           s\<lparr>pendingAcks := rest, settled := settled s @ [Resolved (AckPromise k) (JString d)]\<rparr>"
  using acks_inv_head[OF assms] assms(2)
  by (simp add: on_messageAck_def resolve_def map_delete_head)

lemma on_messageAck_inv:
  assumes "session_inv s"
  shows "session_inv (on_messageAck d s)"
proof (cases "pendingAcks s")
  case Nil
  with assms show ?thesis by (simp add: on_messageAck_empty)
next
  case (Cons x rest)
  obtain k p where x: "x = (k, p)" by (cases x)
  from assms have a: "acks_inv s" and kd: "kinds_inv s" and q: "questions_inv s"
    by (simp_all add: session_inv_def)
  note eq = on_messageAck_head[OF a Cons[unfolded x], of d]
  have "kinds_inv (on_messageAck d s)"
    using kd Cons x unfolding eq by (simp add: kinds_inv_def)
  moreover have "acks_inv (on_messageAck d s)"
    using a Cons x unfolding eq by (simp add: acks_inv_def)
  moreover have "questions_inv (on_messageAck d s)"
    using q unfolding eq by (simp add: questions_inv_def)
  ultimately show ?thesis by (simp add: session_inv_def)
qed

lemma sorted_snoc_Suc:
  assumes "sorted_wrt (<) xs" "list_all (\<lambda>k. k \<le> c) xs"
  shows "sorted_wrt (<) (xs @ [Suc c])" and "list_all (\<lambda>k. k \<le> Suc c) (xs @ [Suc c])"
proof -
  have b: "\<And>k. k \<in> set xs \<Longrightarrow> k \<le> c" using assms(2) by (simp add: list_all_iff)
  show "sorted_wrt (<) (xs @ [Suc c])"
    using assms(1) b by (simp add: sorted_wrt_append le_imp_less_Suc)
  show "list_all (\<lambda>k. k \<le> Suc c) (xs @ [Suc c])"
    using b by (simp add: list_all_iff le_SucI)
qed

lemma acks_inv_send:
  assumes "acks_inv s"
  shows "acks_inv (s\<lparr>ackCounter := Suc (ackCounter s),
              pendingAcks := pendingAcks s @ [(Suc (ackCounter s), AckPromise (Suc (ackCounter s)))]\<rparr>)"
proof -
  let ?xs = "ack_resolutions (settled s) @ map fst (pendingAcks s)"
  from assms have 1: "sorted_wrt (<) ?xs" and 2: "list_all (\<lambda>k. k \<le> ackCounter s) ?xs"
    and 3: "list_all (\<lambda>(k, p). p = AckPromise k) (pendingAcks s)"
    by (simp_all add: acks_inv_def)
  from sorted_snoc_Suc[OF 1 2] 3 show ?thesis
    by (simp add: acks_inv_def)
qed

lemma acks_inv_cong:
  "ack_resolutions (settled s') = ack_resolutions (settled s) \<Longrightarrow> pendingAcks s' = pendingAcks s \<Longrightarrow>
   ackCounter s' = ackCounter s \<Longrightarrow> acks_inv s' = acks_inv s"
  by (simp add: acks_inv_def)

lemma kinds_inv_cong:
  "pendingAcks s' = pendingAcks s \<Longrightarrow> pendingQuestions s' = pendingQuestions s \<Longrightarrow>
   deadlines s' = deadlines s \<Longrightarrow> kinds_inv s' = kinds_inv s"
  by (simp add: kinds_inv_def)

lemma questions_inv_cong:
  "question_settlements (settled s') = question_settlements (settled s) \<Longrightarrow>
   pendingQuestions s' = pendingQuestions s \<Longrightarrow> deadlines s' = deadlines s \<Longrightarrow>
   nextTimer s' = nextTimer s \<Longrightarrow> questions_inv s' = questions_inv s"
  by (simp add: questions_inv_def)

lemma send_throws: "send is_open payload c = Inl e \<Longrightarrow> e = WebSocketError"
  by (simp add: send_def split: option.splits if_splits)

lemma sendAndWaitForAck_fresh_key:
  assumes "acks_inv s"
  shows "map_set (Suc (ackCounter s)) p (pendingAcks s) = pendingAcks s @ [(Suc (ackCounter s), p)]"
proof -
  have "Suc (ackCounter s) \<notin> fst ` set (pendingAcks s)"
  proof
    assume "Suc (ackCounter s) \<in> fst ` set (pendingAcks s)"
    then obtain p' where "(Suc (ackCounter s), p') \<in> set (pendingAcks s)" by force
    from acks_inv_bounds(1)[OF assms this] show False by simp
  qed
  then show ?thesis by (rule map_set_new)
qed

lemma sendAndWaitForAck_sent:
  assumes "acks_inv s" "i < length (conns s)" "send is_open payload (conns s ! i) = Inr c'"
  shows "snd (sendAndWaitForAck (Some i) is_open payload s) =
            s\<lparr>ackCounter := Suc (ackCounter s),
              pendingAcks := pendingAcks s @ [(Suc (ackCounter s), AckPromise (Suc (ackCounter s)))],
              conns := (conns s)[i := c']\<rparr>"
  using assms(2,3) by (simp add: sendAndWaitForAck_def Let_def sendAndWaitForAck_fresh_key[OF assms(1)])

lemma sendAndWaitForAck_failed:
  assumes "acks_inv s" "i < length (conns s)" "send is_open payload (conns s ! i) = Inl e"
  shows "snd (sendAndWaitForAck (Some i) is_open payload s) =
            s\<lparr>ackCounter := Suc (ackCounter s),
              pendingAcks := pendingAcks s @ [(Suc (ackCounter s), AckPromise (Suc (ackCounter s)))],
              settled := settled s @ [Rejected (AckPromise (Suc (ackCounter s))) WebSocketError]\<rparr>"
  using send_throws[OF assms(3)] assms(2,3)
  by (simp add: sendAndWaitForAck_def Let_def reject_def sendAndWaitForAck_fresh_key[OF assms(1)])

lemma sendAndWaitForAck_null:
  assumes "acks_inv s"
  shows "snd (sendAndWaitForAck None is_open payload s) =
            s\<lparr>ackCounter := Suc (ackCounter s),
              pendingAcks := pendingAcks s @ [(Suc (ackCounter s), AckPromise (Suc (ackCounter s)))],
              settled := settled s @ [Rejected (AckPromise (Suc (ackCounter s))) TypeError]\<rparr>"
  by (simp add: sendAndWaitForAck_def Let_def reject_def sendAndWaitForAck_fresh_key[OF assms(1)])

lemma sendAndWaitForAck_no_object:
  assumes "acks_inv s" "\<not> i < length (conns s)"
  shows "snd (sendAndWaitForAck (Some i) is_open payload s) =
            s\<lparr>ackCounter := Suc (ackCounter s),
              pendingAcks := pendingAcks s @ [(Suc (ackCounter s), AckPromise (Suc (ackCounter s)))]\<rparr>"
  using assms(2) by (simp add: sendAndWaitForAck_def Let_def sendAndWaitForAck_fresh_key[OF assms(1)])

lemma sendAndWaitForAck_outcome:
  assumes "acks_inv s"
  shows "\<exists>cs r. snd (sendAndWaitForAck conn is_open payload s) =
            s\<lparr>ackCounter := Suc (ackCounter s),
              pendingAcks := pendingAcks s @ [(Suc (ackCounter s), AckPromise (Suc (ackCounter s)))],
              conns := cs, settled := settled s @ r\<rparr> \<and>
          (r = [] \<or> r = [Rejected (AckPromise (Suc (ackCounter s))) WebSocketError] \<or>
           r = [Rejected (AckPromise (Suc (ackCounter s))) TypeError])"
proof (cases conn)
  case None
  show ?thesis unfolding None sendAndWaitForAck_null[OF assms]
    by (rule exI[of _ "conns s"], rule exI[of _ "[Rejected (AckPromise (Suc (ackCounter s))) TypeError]"]) simp
next
  case (Some i)
  show ?thesis
  proof (cases "i < length (conns s)")
    case False
    show ?thesis unfolding Some sendAndWaitForAck_no_object[OF assms False]
      by (rule exI[of _ "conns s"], rule exI[of _ "[]"]) simp
  next
    case True
    show ?thesis
    proof (cases "send is_open payload (conns s ! i)")
      case (Inl e)
      show ?thesis unfolding Some sendAndWaitForAck_failed[OF assms True Inl]
        by (rule exI[of _ "conns s"],
            rule exI[of _ "[Rejected (AckPromise (Suc (ackCounter s))) WebSocketError]"]) simp
    next
      case (Inr c')
      show ?thesis unfolding Some sendAndWaitForAck_sent[OF assms True Inr]
        by (rule exI[of _ "(conns s)[i := c']"], rule exI[of _ "[]"]) simp
    qed
  qed
qed

lemma sendAndWaitForAck_inv:
  assumes "session_inv s"
  shows "session_inv (snd (sendAndWaitForAck conn is_open payload s))"
proof -
  from assms have a: "acks_inv s" and kd: "kinds_inv s" and q: "questions_inv s"
    by (simp_all add: session_inv_def)
  let ?s1 = "s\<lparr>ackCounter := Suc (ackCounter s),
              pendingAcks := pendingAcks s @ [(Suc (ackCounter s), AckPromise (Suc (ackCounter s)))]\<rparr>"
  have k1: "kinds_inv ?s1" using kd by (simp add: kinds_inv_def)
  have a1: "acks_inv ?s1" by (rule acks_inv_send[OF a])
  have q1: "questions_inv ?s1" using q by (simp add: questions_inv_def)
  from sendAndWaitForAck_outcome[OF a, of conn is_open payload]
  obtain cs r where e: "snd (sendAndWaitForAck conn is_open payload s) =
               ?s1\<lparr>conns := cs, settled := settled ?s1 @ r\<rparr>"
    and r: "r = [] \<or> r = [Rejected (AckPromise (Suc (ackCounter s))) WebSocketError] \<or>
           r = [Rejected (AckPromise (Suc (ackCounter s))) TypeError]"
    by auto
  have "kinds_inv (snd (sendAndWaitForAck conn is_open payload s))"
    unfolding e using k1 by (simp add: kinds_inv_def)
  moreover have "acks_inv (snd (sendAndWaitForAck conn is_open payload s))"
    unfolding e using a1 r by (auto simp add: acks_inv_def)
  moreover have "questions_inv (snd (sendAndWaitForAck conn is_open payload s))"
    unfolding e using q1 r by (auto simp add: questions_inv_def)
  ultimately show ?thesis by (simp add: session_inv_def)
qed


subsection \<open>Questions\<close>

lemma questions_inv_timer:
  assumes "questions_inv s" "map_of (deadlines s) t = Some d"
  shows "t < nextTimer s" and "reject_d d = QuestionPromise t"
    and "t \<notin> set (question_settlements (settled s))"
proof -
  from assms(2) have m: "(t, d) \<in> set (deadlines s)" by (rule map_of_SomeD)
  from assms(1) have "\<forall>x \<in> set (deadlines s). case x of (t, d) \<Rightarrow> t < nextTimer s \<and> reject_d d = QuestionPromise t"
    by (simp add: questions_inv_def list_all_iff)
  with m show "t < nextTimer s" and "reject_d d = QuestionPromise t" by blast+
  from assms(1) have "\<forall>t' \<in> set (question_settlements (settled s)). t' \<notin> fst ` set (deadlines s)"
    by (simp add: questions_inv_def list_all_iff)
  moreover from m have "t \<in> fst ` set (deadlines s)" by force
  ultimately show "t \<notin> set (question_settlements (settled s))" by blast
qed

lemma questions_inv_entry:
  assumes "questions_inv s" "(m, q) \<in> set (pendingQuestions s)"
  shows "\<exists>d. map_of (deadlines s) (timeoutId q) = Some d \<and> messageId_d d = m \<and> reject_d d = caller_q q"
proof -
  from assms(1) have "\<forall>x \<in> set (pendingQuestions s). case x of (m, q) \<Rightarrow>
      (case map_of (deadlines s) (timeoutId q) of None \<Rightarrow> False
       | Some d \<Rightarrow> messageId_d d = m \<and> reject_d d = caller_q q)"
    by (simp add: questions_inv_def list_all_iff)
  with assms(2) have "case map_of (deadlines s) (timeoutId q) of None \<Rightarrow> False
       | Some d \<Rightarrow> messageId_d d = m \<and> reject_d d = caller_q q"
    by blast
  then show ?thesis by (cases "map_of (deadlines s) (timeoutId q)") simp_all
qed

lemma questions_inv_settle:
  assumes inv: "questions_inv s" and t: "map_of (deadlines s) t = Some d"
    and x: "question_settlements x = [t]"
  shows "questions_inv (s\<lparr>deadlines := map_delete t (deadlines s),
                          pendingQuestions := map_delete (messageId_d d) (pendingQuestions s),
                          settled := settled s @ x\<rparr>)"
proof -
  let ?D = "map_delete t (deadlines s)"
  let ?P = "map_delete (messageId_d d) (pendingQuestions s)"
  from inv have d1: "distinct (map fst (pendingQuestions s))" and d3: "distinct (map fst (deadlines s))"
    and q3: "list_all (\<lambda>(t, d). t < nextTimer s \<and> reject_d d = QuestionPromise t) (deadlines s)"
    and q4: "list_all (\<lambda>t. t < nextTimer s \<and> t \<notin> fst ` set (deadlines s)) (question_settlements (settled s))"
    and q5: "distinct (question_settlements (settled s))"
    by (simp_all add: questions_inv_def)
  have 1: "distinct (map fst ?P)" using d1 by (simp add: map_delete_keys)
  have 2: "list_all (\<lambda>(m, q). case map_of ?D (timeoutId q) of None \<Rightarrow> False
                          | Some d \<Rightarrow> messageId_d d = m \<and> reject_d d = caller_q q) ?P"
    unfolding list_all_iff
  proof
    fix e assume e: "e \<in> set ?P"
    obtain m q where mq: "e = (m, q)" by (cases e)
    from e mq have in_P: "(m, q) \<in> set (pendingQuestions s)" and ne: "m \<noteq> messageId_d d"
      by (simp_all add: map_delete_set)
    from questions_inv_entry[OF inv in_P] obtain d' where
      d': "map_of (deadlines s) (timeoutId q) = Some d'" "messageId_d d' = m" "reject_d d' = caller_q q"
      by blast
    have "timeoutId q \<noteq> t"
    proof
      assume "timeoutId q = t"
      with d' t have "d' = d" by simp
      with d'(2) ne show False by simp
    qed
    with d' show "case e of (m, q) \<Rightarrow> (case map_of ?D (timeoutId q) of None \<Rightarrow> False
                          | Some d \<Rightarrow> messageId_d d = m \<and> reject_d d = caller_q q)"
      unfolding mq by (simp add: map_of_map_delete)
  qed
  have 3: "distinct (map fst ?D)" using d3 by (simp add: map_delete_keys)
  have 4: "list_all (\<lambda>(t, d). t < nextTimer s \<and> reject_d d = QuestionPromise t) ?D"
    using q3 by (simp add: list_all_iff map_delete_set)
  have sub: "fst ` set ?D \<subseteq> fst ` set (deadlines s)" by (auto simp add: map_delete_set)
  have tD: "t \<notin> fst ` set ?D" by (auto simp add: map_delete_set)
  have 5: "list_all (\<lambda>t'. t' < nextTimer s \<and> t' \<notin> fst ` set ?D) (question_settlements (settled s) @ [t])"
  proof -
    have "\<forall>t' \<in> set (question_settlements (settled s)). t' < nextTimer s \<and> t' \<notin> fst ` set ?D"
      using q4 sub unfolding list_all_iff by blast
    with tD questions_inv_timer(1)[OF inv t] show ?thesis by (simp add: list_all_iff)
  qed
  have 6: "distinct (question_settlements (settled s) @ [t])"
    using q5 questions_inv_timer(3)[OF inv t] by simp
  from 1 2 3 4 5 6 show ?thesis by (simp add: questions_inv_def x)
qed


lemma ack_resolutions_question [simp]:
  "is_question p \<Longrightarrow> ack_resolutions [Resolved p v] = []"
  by (cases p) simp_all

lemma question_settlements_single:
  "question_settlements [Resolved (QuestionPromise t) v] = [t]"
  "question_settlements [Rejected (QuestionPromise t) e] = [t]"
  by simp_all

lemma kinds_inv_entry:
  assumes "kinds_inv s"
  shows "(m, q) \<in> set (pendingQuestions s) \<Longrightarrow> is_question (caller_q q)"
    and "(t, d) \<in> set (deadlines s) \<Longrightarrow> is_question (reject_d d)"
    and "(k, p) \<in> set (pendingAcks s) \<Longrightarrow> \<not> is_question p"
  using assms unfolding kinds_inv_def list_all_iff by blast+

lemma kinds_inv_remove:
  assumes "kinds_inv s"
  shows "kinds_inv (s\<lparr>deadlines := map_delete t (deadlines s),
                      pendingQuestions := map_delete m (pendingQuestions s),
                      settled := x\<rparr>)"
  using assms by (simp add: kinds_inv_def list_all_iff map_delete_set)

lemma handleResponse_absent:
  "map_of (pendingQuestions s) (id_msg message) = None \<Longrightarrow> handleResponse parse message s = s"
  by (simp add: handleResponse_def)

lemma handleResponse_present:
  assumes "map_of (pendingQuestions s) (id_msg message) = Some q"
  shows "handleResponse parse message s =
           s\<lparr>deadlines := map_delete (timeoutId q) (deadlines s),
             pendingQuestions := map_delete (id_msg message) (pendingQuestions s),
             settled := settled s @ [Resolved (caller_q q) (resolved_value parse message)]\<rparr>"
  using assms
  by (simp add: handleResponse_def Let_def clearTimeout_def resolve_def resolved_value_def
      split: option.splits)

lemma handleResponse_inv:
  assumes "session_inv s"
  shows "session_inv (handleResponse parse message s)"
proof (cases "map_of (pendingQuestions s) (id_msg message)")
  case None
  with assms show ?thesis by (simp add: handleResponse_absent)
next
  case (Some q)
  from assms have a: "acks_inv s" and kd: "kinds_inv s" and qi: "questions_inv s"
    by (simp_all add: session_inv_def)
  from Some have in_P: "(id_msg message, q) \<in> set (pendingQuestions s)" by (rule map_of_SomeD)
  from questions_inv_entry[OF qi in_P] obtain d where
    d: "map_of (deadlines s) (timeoutId q) = Some d" "messageId_d d = id_msg message"
       "reject_d d = caller_q q" by blast
  from questions_inv_timer(2)[OF qi d(1)] d(3)
  have c: "caller_q q = QuestionPromise (timeoutId q)" by simp
  note eq = handleResponse_present[OF Some, of parse]
  have "kinds_inv (handleResponse parse message s)"
    unfolding eq by (rule kinds_inv_remove[OF kd])
  moreover have "acks_inv (handleResponse parse message s)"
    unfolding eq using a by (simp add: acks_inv_def c)
  moreover have "questions_inv (handleResponse parse message s)"
    unfolding eq using questions_inv_settle[OF qi d(1), of "[Resolved (caller_q q) (resolved_value parse message)]"]
    by (simp add: c d(2))
  ultimately show ?thesis by (simp add: session_inv_def)
qed

lemma on_messageUpdated_inv:
  "session_inv s \<Longrightarrow> session_inv (on_messageUpdated parse raw s)"
  by (simp add: on_messageUpdated_def handleResponse_inv split: option.splits)

lemma deadline_unset: "map_of (deadlines s) t = None \<Longrightarrow> deadline t s = s"
  by (simp add: deadline_def)

lemma deadline_set:
  assumes "map_of (deadlines s) t = Some d"
  shows "deadline t s =
           s\<lparr>deadlines := map_delete t (deadlines s),
             pendingQuestions := map_delete (messageId_d d) (pendingQuestions s),
             settled := settled s @ [Rejected (reject_d d) TimeoutError]\<rparr>"
  using assms by (simp add: deadline_def Let_def reject_def)

lemma deadline_inv:
  assumes "session_inv s"
  shows "session_inv (deadline t s)"
proof (cases "map_of (deadlines s) t")
  case None
  with assms show ?thesis by (simp add: deadline_unset)
next
  case (Some d)
  from assms have a: "acks_inv s" and kd: "kinds_inv s" and qi: "questions_inv s"
    by (simp_all add: session_inv_def)
  note c = questions_inv_timer(2)[OF qi Some]
  note eq = deadline_set[OF Some]
  have "kinds_inv (deadline t s)"
    unfolding eq by (rule kinds_inv_remove[OF kd])
  moreover have "acks_inv (deadline t s)"
    unfolding eq using a by (simp add: acks_inv_def)
  moreover have "questions_inv (deadline t s)"
    unfolding eq using questions_inv_settle[OF qi Some, of "[Rejected (reject_d d) TimeoutError]"]
    by (simp add: c)
  ultimately show ?thesis by (simp add: session_inv_def)
qed

lemma ask_wait_eq:
  "snd (ask_wait messageId timeout_opt s) =
     s\<lparr>nextTimer := Suc (nextTimer s),
       deadlines := deadlines s @
         [(nextTimer s, \<lparr>messageId_d = messageId, reject_d = QuestionPromise (nextTimer s),
             timeout_d = (case timeout_opt of None \<Rightarrow> DEFAULT_ASK_TIMEOUT | Some t \<Rightarrow> t)\<rparr>)],
       pendingQuestions := map_set messageId \<lparr>caller_q = QuestionPromise (nextTimer s),
             timeoutId = nextTimer s\<rparr> (pendingQuestions s)\<rparr>"
  by (simp add: ask_wait_def Let_def)

lemma distinct_map_set:
  "distinct (map fst m) \<Longrightarrow> distinct (map fst (map_set k v m))"
  by (auto simp add: map_set_keys)

lemma ask_wait_inv:
  assumes "session_inv s"
  shows "session_inv (snd (ask_wait messageId timeout_opt s))"
proof -
  from assms have a: "acks_inv s" and kd: "kinds_inv s" and qi: "questions_inv s"
    by (simp_all add: session_inv_def)
  let ?t = "nextTimer s"
  let ?d = "\<lparr>messageId_d = messageId, reject_d = QuestionPromise ?t,
             timeout_d = (case timeout_opt of None \<Rightarrow> DEFAULT_ASK_TIMEOUT | Some t \<Rightarrow> t)\<rparr>"
  let ?q = "\<lparr>caller_q = QuestionPromise ?t, timeoutId = ?t\<rparr>"
  let ?D = "deadlines s @ [(?t, ?d)]"
  let ?P = "map_set messageId ?q (pendingQuestions s)"
  from qi have d1: "distinct (map fst (pendingQuestions s))" and d3: "distinct (map fst (deadlines s))"
    and q3: "list_all (\<lambda>(t, d). t < nextTimer s \<and> reject_d d = QuestionPromise t) (deadlines s)"
    and q4: "list_all (\<lambda>t. t < nextTimer s \<and> t \<notin> fst ` set (deadlines s)) (question_settlements (settled s))"
    and q5: "distinct (question_settlements (settled s))"
    by (simp_all add: questions_inv_def)
  have fresh: "?t \<notin> fst ` set (deadlines s)"
  proof
    assume "?t \<in> fst ` set (deadlines s)"
    then obtain d where "(?t, d) \<in> set (deadlines s)" by force
    with q3 show False unfolding list_all_iff by blast
  qed
  then have none: "map_of (deadlines s) ?t = None" by (simp add: map_of_eq_None_iff)
  have look: "map_of ?D t' = (if t' = ?t then Some ?d else map_of (deadlines s) t')" for t'
    using none by (simp add: map_add_def split: option.splits)
  have k: "kinds_inv (snd (ask_wait messageId timeout_opt s))"
    unfolding ask_wait_eq using kd map_set_set[of messageId ?q "pendingQuestions s"]
    by (auto simp add: kinds_inv_def list_all_iff)
  have ac: "acks_inv (snd (ask_wait messageId timeout_opt s))"
    unfolding ask_wait_eq using a by (simp add: acks_inv_def)
  have 1: "distinct (map fst ?P)" using d1 by (rule distinct_map_set)
  have 2: "list_all (\<lambda>(m, q). case map_of ?D (timeoutId q) of None \<Rightarrow> False
                          | Some d \<Rightarrow> messageId_d d = m \<and> reject_d d = caller_q q) ?P"
    unfolding list_all_iff
  proof
    fix e assume e: "e \<in> set ?P"
    obtain m q where mq: "e = (m, q)" by (cases e)
    from e mq map_set_set[of messageId ?q "pendingQuestions s"]
    consider "(m, q) = (messageId, ?q)" | "(m, q) \<in> set (pendingQuestions s)" by blast
    then show "case e of (m, q) \<Rightarrow> (case map_of ?D (timeoutId q) of None \<Rightarrow> False
                          | Some d \<Rightarrow> messageId_d d = m \<and> reject_d d = caller_q q)"
    proof cases
      case 1
      then show ?thesis unfolding mq by (simp add: look del: map_of_append)
    next
      case 2
      from questions_inv_entry[OF qi 2] obtain d' where
        d': "map_of (deadlines s) (timeoutId q) = Some d'" "messageId_d d' = m" "reject_d d' = caller_q q"
        by blast
      from d'(1) none have "timeoutId q \<noteq> ?t" by auto
      with d' show ?thesis unfolding mq by (simp add: look del: map_of_append)
    qed
  qed
  have 3: "distinct (map fst ?D)" using d3 fresh by simp
  have 4: "list_all (\<lambda>(t, d). t < Suc ?t \<and> reject_d d = QuestionPromise t) ?D"
    using q3 by (auto simp add: list_all_iff)
  have 5: "list_all (\<lambda>t'. t' < Suc ?t \<and> t' \<notin> fst ` set ?D) (question_settlements (settled s))"
    using q4 by (auto simp add: list_all_iff)
  from 1 2 3 4 5 q5 have "questions_inv (snd (ask_wait messageId timeout_opt s))"
    unfolding ask_wait_eq by (simp add: questions_inv_def)
  with k ac show ?thesis by (simp add: session_inv_def)
qed


subsection \<open>Rejecting everything\<close>

lemma question_settlements_callers:
  assumes "\<forall>x \<in> set P. caller_q (snd x) = QuestionPromise (timeoutId (snd x))"
  shows "question_settlements (map (\<lambda>(_, q). Rejected (caller_q q) e) P) = map (\<lambda>x. timeoutId (snd x)) P"
  using assms by (induction P) (auto simp add: case_prod_unfold)

lemma question_settlements_ack_rejections:
  assumes "\<forall>x \<in> set A. \<not> is_question (snd x)"
  shows "question_settlements (map (\<lambda>(_, p). Rejected p e) A) = []"
  using assms
proof (induction A)
  case Nil
  then show ?case by simp
next
  case (Cons x A)
  obtain k p where x: "x = (k, p)" by (cases x)
  with Cons show ?case by (cases p) simp_all
qed

lemma ack_resolutions_rejections_pairs [simp]:
  "ack_resolutions (map (\<lambda>(_, q). Rejected (f q) e) xs) = []"
  by (induction xs) (auto simp add: case_prod_unfold)

lemma questions_inv_callers:
  assumes "questions_inv s" "x \<in> set (pendingQuestions s)"
  shows "caller_q (snd x) = QuestionPromise (timeoutId (snd x))"
    and "timeoutId (snd x) < nextTimer s"
    and "timeoutId (snd x) \<in> fst ` set (deadlines s)"
    and "timeoutId (snd x) \<notin> set (question_settlements (settled s))"
proof -
  obtain m q where x: "x = (m, q)" by (cases x)
  from questions_inv_entry[OF assms(1) assms(2)[unfolded x]] obtain d where
    d: "map_of (deadlines s) (timeoutId q) = Some d" "messageId_d d = m" "reject_d d = caller_q q"
    by blast
  from questions_inv_timer[OF assms(1) d(1)] d(3)
  show "caller_q (snd x) = QuestionPromise (timeoutId (snd x))"
    and "timeoutId (snd x) < nextTimer s"
    and "timeoutId (snd x) \<notin> set (question_settlements (settled s))"
    unfolding x by simp_all
  from map_of_SomeD[OF d(1)] show "timeoutId (snd x) \<in> fst ` set (deadlines s)"
    unfolding x by force
qed

lemma questions_inv_timeoutIds_distinct:
  assumes "questions_inv s"
  shows "distinct (map (\<lambda>x. timeoutId (snd x)) (pendingQuestions s))"
proof -
  from assms have d1: "distinct (map fst (pendingQuestions s))" by (simp add: questions_inv_def)
  then have dP: "distinct (pendingQuestions s)" and inj: "inj_on fst (set (pendingQuestions s))"
    by (simp_all add: distinct_map)
  have "inj_on (\<lambda>x. timeoutId (snd x)) (set (pendingQuestions s))"
  proof (rule inj_onI)
    fix x y assume x: "x \<in> set (pendingQuestions s)" and y: "y \<in> set (pendingQuestions s)"
      and eq: "timeoutId (snd x) = timeoutId (snd y)"
    obtain m q where xq: "x = (m, q)" by (cases x)
    obtain m' q' where yq: "y = (m', q')" by (cases y)
    from questions_inv_entry[OF assms x[unfolded xq]] obtain d where
      d: "map_of (deadlines s) (timeoutId q) = Some d" "messageId_d d = m" by blast
    from questions_inv_entry[OF assms y[unfolded yq]] obtain d' where
      d': "map_of (deadlines s) (timeoutId q') = Some d'" "messageId_d d' = m'" by blast
    from eq d d' have "m = m'" unfolding xq yq by simp
    then have "fst x = fst y" unfolding xq yq by simp
    from inj_onD[OF inj this x y] show "x = y" .
  qed
  with dP show ?thesis by (simp add: distinct_map)
qed

lemma reject_all_inv:
  assumes "session_inv s"
  shows "session_inv
     (s\<lparr>deadlines := filter (\<lambda>(t, _). t \<notin> (\<lambda>x. timeoutId (snd x)) ` set (pendingQuestions s)) (deadlines s),
        settled := settled s @ map (\<lambda>(_, q). Rejected (caller_q q) e) (pendingQuestions s)
                             @ map (\<lambda>(_, p). Rejected p e) (pendingAcks s),
        pendingQuestions := [], pendingAcks := []\<rparr>)" (is "session_inv ?s'")
proof -
  from assms have a: "acks_inv s" and kd: "kinds_inv s" and qi: "questions_inv s"
    by (simp_all add: session_inv_def)
  let ?D = "filter (\<lambda>(t, _). t \<notin> (\<lambda>x. timeoutId (snd x)) ` set (pendingQuestions s)) (deadlines s)"
  let ?ts = "map (\<lambda>x. timeoutId (snd x)) (pendingQuestions s)"
  from qi have d3: "distinct (map fst (deadlines s))"
    and q3: "list_all (\<lambda>(t, d). t < nextTimer s \<and> reject_d d = QuestionPromise t) (deadlines s)"
    and q4: "list_all (\<lambda>t. t < nextTimer s \<and> t \<notin> fst ` set (deadlines s)) (question_settlements (settled s))"
    and q5: "distinct (question_settlements (settled s))"
    by (simp_all add: questions_inv_def)
  have k: "kinds_inv ?s'" using kd by (simp add: kinds_inv_def list_all_iff)
  from a have "sorted_wrt (<) (ack_resolutions (settled s))"
    and "list_all (\<lambda>k. k \<le> ackCounter s) (ack_resolutions (settled s))"
    by (simp_all add: acks_inv_def sorted_wrt_append)
  then have ac: "acks_inv ?s'" by (simp add: acks_inv_def)
  have qs1: "question_settlements (map (\<lambda>(_, q). Rejected (caller_q q) e) (pendingQuestions s)) = ?ts"
    by (rule question_settlements_callers) (simp add: questions_inv_callers(1)[OF qi])
  have qs2: "question_settlements (map (\<lambda>(_, p). Rejected p e) (pendingAcks s)) = []"
  proof (rule question_settlements_ack_rejections, rule ballI)
    fix x assume "x \<in> set (pendingAcks s)"
    then have "(fst x, snd x) \<in> set (pendingAcks s)" by simp
    then show "\<not> is_question (snd x)" by (rule kinds_inv_entry(3)[OF kd])
  qed
  have qs: "question_settlements (settled ?s') = question_settlements (settled s) @ ?ts"
    by (simp add: qs1 qs2)
  have sub: "fst ` set ?D \<subseteq> fst ` set (deadlines s)" by auto
  have 3: "distinct (map fst ?D)" using d3 by (simp add: distinct_map_filter)
  have 4: "list_all (\<lambda>(t, d). t < nextTimer s \<and> reject_d d = QuestionPromise t) ?D"
    using q3 by (simp add: list_all_iff)
  have 5: "list_all (\<lambda>t. t < nextTimer s \<and> t \<notin> fst ` set ?D) (question_settlements (settled s) @ ?ts)"
  proof -
    have "\<forall>t \<in> set (question_settlements (settled s)). t < nextTimer s \<and> t \<notin> fst ` set ?D"
      using q4 sub unfolding list_all_iff by blast
    moreover have "\<forall>t \<in> set ?ts. t < nextTimer s \<and> t \<notin> fst ` set ?D"
    proof
      fix t assume t: "t \<in> set ?ts"
      then obtain x where x: "x \<in> set (pendingQuestions s)" "t = timeoutId (snd x)" by auto
      from questions_inv_callers(2)[OF qi x(1)] x(2) have "t < nextTimer s" by simp
      moreover from t have "t \<notin> fst ` set ?D" by force
      ultimately show "t < nextTimer s \<and> t \<notin> fst ` set ?D" by simp
    qed
    ultimately show ?thesis unfolding list_all_iff set_append by blast
  qed
  have 6: "distinct (question_settlements (settled s) @ ?ts)"
    using q5 questions_inv_timeoutIds_distinct[OF qi] questions_inv_callers(4)[OF qi] by auto
  from 3 4 5 6 have "questions_inv ?s'"
    unfolding questions_inv_def qs by simp
  with k ac show ?thesis by (simp add: session_inv_def)
qed

lemma on_disconnected_expired:
  "on_disconnected (Some SESSION_EXPIRED_CLOSE_CODE) s =
     s\<lparr>deadlines := filter (\<lambda>(t, _). t \<notin> (\<lambda>x. timeoutId (snd x)) ` set (pendingQuestions s)) (deadlines s),
       settled := settled s @ map (\<lambda>(_, q). Rejected (caller_q q) SessionExpiredError) (pendingQuestions s)
                            @ map (\<lambda>(_, p). Rejected p SessionExpiredError) (pendingAcks s),
       pendingQuestions := [], pendingAcks := []\<rparr>"
  by (simp add: on_disconnected_def rejectQuestions_eq rejectAcks_eq)

lemma on_disconnected_other:
  "code \<noteq> Some SESSION_EXPIRED_CLOSE_CODE \<Longrightarrow> on_disconnected code s = s"
  by (simp add: on_disconnected_def)

lemma on_disconnected_inv: "session_inv s \<Longrightarrow> session_inv (on_disconnected code s)"
  by (cases "code = Some SESSION_EXPIRED_CLOSE_CODE")
     (simp_all add: on_disconnected_expired on_disconnected_other reject_all_inv)

lemma close_session_eq:
  "\<exists>cs. close_session s =
     s\<lparr>deadlines := filter (\<lambda>(t, _). t \<notin> (\<lambda>x. timeoutId (snd x)) ` set (pendingQuestions s)) (deadlines s),
       settled := settled s @ map (\<lambda>(_, q). Rejected (caller_q q) (JsError ''Session closed'')) (pendingQuestions s)
                            @ map (\<lambda>(_, p). Rejected p (JsError ''Session closed'')) (pendingAcks s),
       pendingQuestions := [], pendingAcks := [], conns := cs, connection := None\<rparr>"
proof (cases "connection s")
  case None
  then show ?thesis
    by (intro exI[of _ "conns s"]) (simp add: close_session_def rejectQuestions_eq rejectAcks_eq)
next
  case (Some i)
  then show ?thesis
    by (intro exI[of _ "if i < length (conns s) then (conns s)[i := close (conns s ! i)] else conns s"])
       (simp add: close_session_def rejectQuestions_eq rejectAcks_eq)
qed

lemma close_session_inv:
  assumes "session_inv s"
  shows "session_inv (close_session s)"
proof -
  from close_session_eq[of s] obtain cs where
    e: "close_session s =
     s\<lparr>deadlines := filter (\<lambda>(t, _). t \<notin> (\<lambda>x. timeoutId (snd x)) ` set (pendingQuestions s)) (deadlines s),
       settled := settled s @ map (\<lambda>(_, q). Rejected (caller_q q) (JsError ''Session closed'')) (pendingQuestions s)
                            @ map (\<lambda>(_, p). Rejected p (JsError ''Session closed'')) (pendingAcks s),
       pendingQuestions := [], pendingAcks := [], conns := cs, connection := None\<rparr>"
    by blast
  show ?thesis unfolding e using reject_all_inv[OF assms, of "JsError ''Session closed''"] by simp
qed

subsection \<open>Every step keeps the invariants\<close>

lemma ensureConnected_inv: "session_inv s \<Longrightarrow> session_inv (snd (ensureConnected ctor s))"
  by (simp add: ensureConnected_def Let_def split: option.splits prod.splits)

lemma listener_inv: "session_inv s \<Longrightarrow> session_inv (listener parse ev s)"
  by (cases ev) (simp_all add: on_messageAck_inv on_messageUpdated_inv on_disconnected_inv)

lemma listeners_inv: "session_inv s \<Longrightarrow> session_inv (foldl (\<lambda>s' e. listener parse e s') s evs)"
  by (induction evs arbitrary: s) (simp_all add: listener_inv)

lemma on_connection_inv: "session_inv s \<Longrightarrow> session_inv (on_connection parse i ev s)"
  by (simp add: on_connection_def Let_def listeners_inv)

lemma ask_begin_state:
  "snd (ask_begin ctor s) = (if recipients s = [] then s else snd (ensureConnected ctor s))"
  by (simp add: ask_begin_def split: prod.splits)

lemma session_step_inv: "session_inv s \<Longrightarrow> session_inv (session_step parse e s)"
  by (cases e)
     (simp_all add: ask_begin_state ask_send_def log_begin_def log_send_def ensureConnected_inv
        sendAndWaitForAck_inv ask_wait_inv deadline_inv close_session_inv on_connection_inv)

lemma session_run_inv: "session_inv s \<Longrightarrow> session_inv (session_run parse es s)"
  by (induction es arbitrary: s) (simp_all add: session_step_inv)

lemma reachable_inv: "session_inv (session_run parse es (newSession rs))"
  by (rule session_run_inv[OF newSession_inv])


subsection \<open>What a step of a connection emits\<close>

lemma emitted_in_append [simp]: "emitted_in (xs @ ys) = emitted_in xs @ emitted_in ys"
  by (induction xs rule: emitted_in.induct) simp_all

lemma emitted_extend: "effects c' = effects c @ new \<Longrightarrow> emitted c c' = emitted_in new"
  by (simp add: emitted_def)

lemma emitted_same [simp]: "emitted c c = []"
  by (simp add: emitted_def)

lemma connect_effects:
  "\<exists>new. effects (snd (connect ctor c)) = effects c @ new \<and> \<not> list_ex has_listener (emitted_in new)"
  by (cases "connectPromise c"; cases "isConnected c"; cases ctor; cases "status c = connecting")
     (simp_all add: connect_def setStatus_def emit_def Let_def)

lemma close_effects:
  "\<exists>new. effects (close c) = effects c @ new \<and> \<not> list_ex has_listener (emitted_in new)"
  by (cases "reconnectTimeout c"; cases "ws c"; cases "status c = disconnected")
     (simp_all add: close_def setStatus_def emit_def Let_def)

lemma onerror_effects:
  "\<exists>new. effects (onerror w msg c) = effects c @ new \<and> \<not> list_ex has_listener (emitted_in new)"
  by (cases "map_of (attached c) w"; cases "status c = error_s")
     (simp_all add: onerror_def setStatus_def emit_def Let_def)

lemma send_effects:
  "send is_open payload c = Inr c' \<Longrightarrow>
   \<exists>new. effects c' = effects c @ new \<and> \<not> list_ex has_listener (emitted_in new)"
  by (auto simp add: send_def split: option.splits if_splits)

lemma reconnectTimer_effects:
  "\<exists>new. effects (reconnectTimer t ctor c) = effects c @ new \<and> \<not> list_ex has_listener (emitted_in new)"
proof (cases "t \<in> set (scheduled c)")
  case False
  then show ?thesis by (simp add: reconnectTimer_def)
next
  case True
  from connect_effects[of ctor "c\<lparr>scheduled := removeAll t (scheduled c), reconnectAttempts := Suc (reconnectAttempts c)\<rparr>"]
  show ?thesis using True by (simp add: reconnectTimer_def)
qed

lemma onmessage_emitted:
  "emitted c (onmessage w frame c) =
     (case map_of (attached c) w of
        None \<Rightarrow> []
      | Some p \<Rightarrow>
          (case frame of
             None \<Rightarrow> []
           | Some ConnectedEvent \<Rightarrow>
               (if status c \<noteq> connected_s then [EvStatusChange connected_s] else []) @ [EvConnected]
           | Some (MessageEvent m) \<Rightarrow> [EvMessage m]
           | Some (MessageUpdatedEvent m) \<Rightarrow> [EvMessageUpdated m]
           | Some (MessageAckEvent d) \<Rightarrow> [EvMessageAck d]
           | Some (ErrorEvent m) \<Rightarrow> [EvError m]
           | Some OtherEvent \<Rightarrow> []))"
proof (cases "map_of (attached c) w")
  case None
  then show ?thesis by (simp add: onmessage_def)
next
  case (Some p)
  show ?thesis
  proof (cases frame)
    case None
    with Some show ?thesis by (simp add: onmessage_def)
  next
    case (Some message)
    with \<open>map_of (attached c) w = Some p\<close> show ?thesis
      by (cases message)
         (simp_all add: onmessage_def Let_def emitted_def setStatus_def emit_def)
  qed
qed

lemma scheduleReconnect_effects:
  "\<exists>new. effects (scheduleReconnect rnd c) = effects c @ new \<and> emitted_in new = []"
  by (simp add: scheduleReconnect_def Let_def)

lemma onclose_emitted:
  "emitted c (onclose w code reason rnd c) =
     (case map_of (attached c) w of
        None \<Rightarrow> []
      | Some p \<Rightarrow> (if status c \<noteq> disconnected then [EvStatusChange disconnected] else [])
                   @ [EvDisconnected code reason])"
proof (cases "map_of (attached c) w")
  case None
  then show ?thesis by (simp add: onclose_def)
next
  case (Some p)
  then show ?thesis
    by (cases "connectPromise c"; cases "manualClose c"; cases "autoReconnect c";
        cases "status c = disconnected";
        cases "maxReconnectAttempts c \<le> int (reconnectAttempts c)")
       (simp_all add: onclose_def scheduleReconnect_def Let_def emitted_def setStatus_def emit_def)
qed

lemma listeners_without_listener:
  "\<not> list_ex has_listener evs \<Longrightarrow> foldl (\<lambda>s' e. listener parse e s') s evs = s"
proof (induction evs arbitrary: s)
  case Nil
  then show ?case by simp
next
  case (Cons ev evs)
  then show ?case by (cases ev) simp_all
qed

lemma conn_step_emits:
  "(\<exists>w d. ev = OnMessage w (Some (MessageAckEvent d)) \<and> emitted c (conn_step ev c) = [EvMessageAck d]) \<or>
   (\<exists>w m. ev = OnMessage w (Some (MessageUpdatedEvent m)) \<and> emitted c (conn_step ev c) = [EvMessageUpdated m]) \<or>
   (\<exists>w code reason rnd pre. ev = OnClose w code reason rnd \<and> \<not> list_ex has_listener pre \<and>
        emitted c (conn_step ev c) = pre @ [EvDisconnected code reason]) \<or>
   \<not> list_ex has_listener (emitted c (conn_step ev c))"
proof (cases ev)
  case (CallConnect ctor)
  from connect_effects[of ctor c] show ?thesis unfolding CallConnect
    by (auto simp add: emitted_def)
next
  case (CallSend is_open payload)
  show ?thesis
  proof (cases "send is_open payload c")
    case (Inl e)
    then show ?thesis unfolding CallSend by simp
  next
    case (Inr c')
    from send_effects[OF Inr] Inr show ?thesis unfolding CallSend by (auto simp add: emitted_def)
  qed
next
  case CallClose
  from close_effects[of c] show ?thesis unfolding CallClose by (auto simp add: emitted_def)
next
  case (OnOpen w)
  then show ?thesis by (simp add: onopen_def)
next
  case (OnMessage w frame)
  show ?thesis
  proof (cases "map_of (attached c) w")
    case None
    then show ?thesis unfolding OnMessage by (simp add: onmessage_emitted)
  next
    case (Some p)
    show ?thesis
    proof (cases frame)
      case None
      with Some show ?thesis unfolding OnMessage by (simp add: onmessage_emitted)
    next
      case (Some message)
      with \<open>map_of (attached c) w = Some p\<close> show ?thesis unfolding OnMessage
        by (cases message) (simp_all add: onmessage_emitted)
    qed
  qed
next
  case (OnClose w code reason rnd)
  show ?thesis
  proof (cases "map_of (attached c) w")
    case None
    then show ?thesis unfolding OnClose by (simp add: onclose_emitted)
  next
    case (Some p)
    have "\<not> list_ex has_listener (if status c \<noteq> disconnected then [EvStatusChange disconnected] else [])"
      by simp
    with Some show ?thesis unfolding OnClose
      by (intro disjI2 disjI1 exI conjI) (simp_all add: onclose_emitted)
  qed
next
  case (OnError w msg)
  from onerror_effects[of w msg c] show ?thesis unfolding OnError by (auto simp add: emitted_def)
next
  case (ReconnectTimer t ctor)
  from reconnectTimer_effects[of t ctor c] show ?thesis unfolding ReconnectTimer
    by (auto simp add: emitted_def)
qed


section \<open>Properties of the connection\<close>

subsection \<open>Fields that \<open>setStatus\<close> and \<open>emit\<close> leave alone\<close>

lemma setStatus_fields [simp]:
  "fresh (setStatus st c) = fresh c" "scheduled (setStatus st c) = scheduled c"
  "reconnectAttempts (setStatus st c) = reconnectAttempts c"
  "manualClose (setStatus st c) = manualClose c" "autoReconnect (setStatus st c) = autoReconnect c"
  "maxReconnectAttempts (setStatus st c) = maxReconnectAttempts c"
  "reconnectDelay (setStatus st c) = reconnectDelay c"
  "connectPromise (setStatus st c) = connectPromise c"
  "reconnectTimeout (setStatus st c) = reconnectTimeout c"
  "attached (setStatus st c) = attached c" "ws (setStatus st c) = ws c"
  by (simp_all add: setStatus_def emit_def)

lemma emit_fields [simp]:
  "fresh (emit ev c) = fresh c" "scheduled (emit ev c) = scheduled c"
  "reconnectAttempts (emit ev c) = reconnectAttempts c"
  "manualClose (emit ev c) = manualClose c" "autoReconnect (emit ev c) = autoReconnect c"
  "maxReconnectAttempts (emit ev c) = maxReconnectAttempts c"
  "reconnectDelay (emit ev c) = reconnectDelay c"
  "connectPromise (emit ev c) = connectPromise c"
  "reconnectTimeout (emit ev c) = reconnectTimeout c"
  "attached (emit ev c) = attached c" "ws (emit ev c) = ws c"
  "status (emit ev c) = status c" "isConnected (emit ev c) = isConnected c"
  "effects (emit ev c) = effects c @ [Emit ev]"
  by (simp_all add: emit_def)

subsection \<open>Reconnection\<close>


lemma connect_scheduled [simp]: "scheduled (snd (connect ctor c)) = scheduled c"
  by (simp add: connect_def Let_def split: option.splits)

lemma connect_attempts [simp]: "reconnectAttempts (snd (connect ctor c)) = reconnectAttempts c"
  by (simp add: connect_def Let_def split: option.splits)

lemma handleMessage_scheduled [simp]: "scheduled (handleMessage m c) = scheduled c"
  by (cases m) simp_all

lemma close_scheduled: "set (scheduled (close c)) \<subseteq> set (scheduled c)"
  by (auto simp add: close_def Let_def split: option.splits)

lemma close_attempts [simp]: "reconnectAttempts (close c) = reconnectAttempts c"
  by (simp add: close_def Let_def split: option.splits)










subsection \<open>Connecting\<close>

lemma connect_shared: "connectPromise c = Some p \<Longrightarrow> connect ctor c = (PromiseRef p, c)"
  by (simp add: connect_def)

lemma connect_when_connected:
  "connectPromise c = None \<Longrightarrow> isConnected c \<Longrightarrow> connect ctor c = (PromiseResolved, c)"
  by (simp add: connect_def)

lemma connect_fresh_promise:
  "connectPromise c = None \<Longrightarrow> \<not> isConnected c \<Longrightarrow>
   fst (connect ctor c) = PromiseRef (fresh c) \<and> connectPromise (snd (connect ctor c)) = Some (fresh c)"
  by (simp add: connect_def Let_def split: option.splits)

lemma connect_opens_at_most_one:
  "channels_opened (snd (connect ctor c)) \<le> Suc (channels_opened c)"
  by (simp add: connect_def channels_opened_def setStatus_def emit_def Let_def split: option.splits)

lemma connect_opens_one:
  "connectPromise c = None \<Longrightarrow> \<not> isConnected c \<Longrightarrow>
   channels_opened (snd (connect None c)) = Suc (channels_opened c)"
  by (simp add: connect_def channels_opened_def setStatus_def emit_def Let_def split: option.splits)

lemma connect_no_resolve:
  "ResolveConnect q \<in> set (effects (snd (connect ctor c))) \<Longrightarrow> ResolveConnect q \<in> set (effects c)"
  by (auto simp add: connect_def setStatus_def emit_def Let_def split: option.splits if_splits)

lemma handleMessage_no_resolve:
  "ResolveConnect q \<in> set (effects (handleMessage m c)) \<Longrightarrow> ResolveConnect q \<in> set (effects c)"
  by (cases m) (auto simp add: setStatus_def emit_def split: if_splits)

lemma scheduleReconnect_no_resolve:
  "ResolveConnect q \<in> set (effects (scheduleReconnect rnd c)) \<Longrightarrow> ResolveConnect q \<in> set (effects c)"
  by (auto simp add: scheduleReconnect_def Let_def split: if_splits)

lemma onclose_no_resolve:
  "ResolveConnect q \<in> set (effects (onclose w code reason rnd c)) \<Longrightarrow> ResolveConnect q \<in> set (effects c)"
  by (auto simp add: onclose_def setStatus_def emit_def Let_def
      dest!: scheduleReconnect_no_resolve split: option.splits if_splits)

lemma close_no_resolve:
  "ResolveConnect q \<in> set (effects (close c)) \<Longrightarrow> ResolveConnect q \<in> set (effects c)"
  by (auto simp add: close_def setStatus_def emit_def Let_def split: option.splits if_splits)

lemma resolved_only_when_connected:
  "fst (connect ctor c) = PromiseResolved \<Longrightarrow> connectPromise c = None \<and> isConnected c"
  by (simp add: connect_def Let_def split: option.splits if_splits)

lemma connect_not_connected:
  "isConnected (snd (connect ctor c)) \<Longrightarrow> isConnected c"
  by (simp add: connect_def setStatus_def emit_def Let_def split: option.splits if_splits)

lemma connected_only_on_handshake:
  assumes "isConnected (conn_step ev c)" and "\<not> isConnected c"
  shows "\<exists>w. ev = OnMessage w (Some ConnectedEvent)"
proof (cases ev)
  case (CallConnect ctor)
  with assms show ?thesis by (auto dest: connect_not_connected)
next
  case (CallSend b d)
  with assms show ?thesis by (auto simp: send_def split: option.splits if_splits sum.splits)
next
  case CallClose
  with assms show ?thesis by (auto simp: close_def setStatus_def emit_def Let_def split: option.splits if_splits)
next
  case (OnOpen w)
  with assms show ?thesis by (simp add: onopen_def)
next
  case (OnMessage w frame)
  show ?thesis
  proof (cases frame)
    case None
    with OnMessage assms show ?thesis by (simp add: onmessage_def split: option.splits)
  next
    case (Some m)
    with OnMessage assms show ?thesis
      by (cases m) (auto simp: onmessage_def emit_def Let_def split: option.splits if_splits)
  qed
next
  case (OnClose w code reason rnd)
  with assms show ?thesis
    by (auto simp: onclose_def scheduleReconnect_def setStatus_def emit_def Let_def
        split: option.splits if_splits)
next
  case (OnError w msg)
  with assms show ?thesis by (auto simp: onerror_def setStatus_def emit_def split: option.splits if_splits)
next
  case (ReconnectTimer t ctor)
  with assms show ?thesis
    by (auto simp: reconnectTimer_def dest: connect_not_connected split: if_splits)
qed

lemma resolve_only_on_handshake:
  assumes "ResolveConnect q \<in> set (effects (conn_step ev c))" and "ResolveConnect q \<notin> set (effects c)"
  shows "\<exists>w. ev = OnMessage w (Some ConnectedEvent)"
proof (cases ev)
  case (CallConnect ctor)
  with assms show ?thesis by (auto dest: connect_no_resolve)
next
  case (CallSend b d)
  with assms show ?thesis by (auto simp: send_def split: option.splits if_splits sum.splits)
next
  case CallClose
  with assms show ?thesis by (auto dest: close_no_resolve)
next
  case (OnOpen w)
  with assms show ?thesis by (simp add: onopen_def)
next
  case (OnMessage w frame)
  with assms show ?thesis
    by (auto simp: onmessage_def Let_def dest: handleMessage_no_resolve split: option.splits if_splits)
next
  case (OnClose w code reason rnd)
  with assms show ?thesis by (auto dest: onclose_no_resolve)
next
  case (OnError w msg)
  with assms show ?thesis by (auto simp: onerror_def setStatus_def emit_def split: option.splits if_splits)
next
  case (ReconnectTimer t ctor)
  with assms show ?thesis by (auto simp: reconnectTimer_def dest: connect_no_resolve split: if_splits)
qed


subsection \<open>Two states used as concrete inputs\<close>

lemmas conn_defs = connect_def onclose_def onmessage_def onerror_def onopen_def reconnectTimer_def
  close_def send_def scheduleReconnect_def backoffDelay_def setStatus_def emit_def
  createWebSocketConnection_def channels_opened_def Let_def

lemma connecting_state:
  "snd (connect None createWebSocketConnection) =
     createWebSocketConnection\<lparr>ws := Some 1, status := connecting, connectPromise := Some 0,
       attached := [(1, 0)], fresh := 2,
       effects := [Emit (EvStatusChange connecting), NewWebSocket 1]\<rparr>"
  by (simp add: conn_defs)



subsection \<open>Closing\<close>

lemma connect_manualClose [simp]: "manualClose (snd (connect ctor c)) = manualClose c"
  by (simp add: connect_def Let_def split: option.splits)

lemma handleMessage_manualClose [simp]: "manualClose (handleMessage m c) = manualClose c"
  by (cases m) simp_all

lemma close_result:
  "manualClose (close c) \<and> reconnectTimeout (close c) = None \<and> ws (close c) = None \<and>
   connectPromise (close c) = None \<and> status (close c) = disconnected \<and>
   (\<forall>t. reconnectTimeout c = Some t \<longrightarrow> t \<notin> set (scheduled (close c)))"
  by (simp add: close_def setStatus_def emit_def Let_def split: option.splits)


lemma close_detaches_then_closes:
  assumes "ws c = Some w"
  shows "effects (close c) =
           effects c @ (case reconnectTimeout c of None \<Rightarrow> [] | Some t \<Rightarrow> [ClearTimeout t]) @
           [DetachHandlers w, CloseWebSocket w] @
           (if status c \<noteq> disconnected then [Emit (EvStatusChange disconnected)] else [])"
    and "w \<notin> fst ` set (attached (close c))"
  using assms
  by (auto simp add: close_def setStatus_def emit_def Let_def split: option.splits)

lemma manualClose_stays:
  assumes "manualClose c"
  shows "manualClose (conn_step ev c) \<and> set (scheduled (conn_step ev c)) \<subseteq> set (scheduled c)"
proof (cases ev)
  case (OnClose w code reason rnd)
  with assms show ?thesis
    by (auto simp add: onclose_def Let_def split: option.splits)
next
  case CallClose
  then show ?thesis using close_scheduled close_result by simp
next
  case (ReconnectTimer t ctor)
  with assms show ?thesis by (auto simp add: reconnectTimer_def)
next
  case (OnMessage w frame)
  with assms show ?thesis by (auto simp add: onmessage_def Let_def split: option.splits)
qed (use assms in \<open>auto simp add: send_def onopen_def onerror_def split: option.splits sum.splits if_splits\<close>)

lemma manualClose_run:
  "manualClose c \<Longrightarrow> manualClose (conn_run evs c) \<and> set (scheduled (conn_run evs c)) \<subseteq> set (scheduled c)"
proof (induction evs arbitrary: c)
  case Nil
  then show ?case by simp
next
  case (Cons e es)
  from manualClose_stays[OF Cons.prems, of e]
  have m: "manualClose (conn_step e c)" and s: "set (scheduled (conn_step e c)) \<subseteq> set (scheduled c)"
    by simp_all
  from Cons.IH[OF m] s show ?case by auto
qed


subsection \<open>The claims about the connection\<close>

text \<open>
  What \<open>connect()\<close> does on any connection. While \<open>connectPromise\<close> is set, a call
  returns that same promise and changes nothing, so it opens no channel; a call on a
  connected connection returns a fulfilled promise and changes nothing, and a fulfilled
  promise is returned in no other state; a first call on an idle connection followed by a
  second call, whatever \<open>new WebSocket\<close> did, gives both callers one promise and opens at
  most one channel. The transport-level open changes nothing: a step of the connection
  calls the \<open>resolve\<close> of a connect promise, or makes the connection connected, only when
  it is the arrival of the server's \<open>connected\<close> frame.
\<close>

lemma connect_while_promise_set:
  "(connectPromise c = Some p \<longrightarrow> connect ctor c = (PromiseRef p, c)) \<and>
   (connectPromise c = None \<and> isConnected c \<longrightarrow> connect ctor c = (PromiseResolved, c)) \<and>
   (fst (connect ctor c) = PromiseResolved \<longrightarrow> connectPromise c = None \<and> isConnected c) \<and>
   (connectPromise c = None \<and> \<not> isConnected c \<longrightarrow>
      connect ctor' (snd (connect ctor c)) = (fst (connect ctor c), snd (connect ctor c)) \<and>
      channels_opened (snd (connect ctor' (snd (connect ctor c)))) \<le> Suc (channels_opened c)) \<and>
   onopen w c = c \<and>
   (\<forall>ev q. ResolveConnect q \<in> set (effects (conn_step ev c)) \<and> ResolveConnect q \<notin> set (effects c)
      \<longrightarrow> (\<exists>w'. ev = OnMessage w' (Some ConnectedEvent))) \<and>
   (\<forall>ev. isConnected (conn_step ev c) \<and> \<not> isConnected c
      \<longrightarrow> (\<exists>w'. ev = OnMessage w' (Some ConnectedEvent)))"
proof (intro conjI impI allI)
  assume "connectPromise c = Some p"
  then show "connect ctor c = (PromiseRef p, c)" by (rule connect_shared)
next
  assume "connectPromise c = None \<and> isConnected c"
  then show "connect ctor c = (PromiseResolved, c)" by (simp add: connect_when_connected)
next
  assume r: "fst (connect ctor c) = PromiseResolved"
  then show "connectPromise c = None" "isConnected c"
    by (rule resolved_only_when_connected[THEN conjunct1],
        rule resolved_only_when_connected[THEN conjunct2])
next
  fix ev assume "isConnected (conn_step ev c) \<and> \<not> isConnected c"
  then show "\<exists>w'. ev = OnMessage w' (Some ConnectedEvent)"
    using connected_only_on_handshake by blast
next
  assume a: "connectPromise c = None \<and> \<not> isConnected c"
  then have f: "fst (connect ctor c) = PromiseRef (fresh c)"
    and s: "connectPromise (snd (connect ctor c)) = Some (fresh c)"
    using connect_fresh_promise by blast+
  from s show "connect ctor' (snd (connect ctor c)) = (fst (connect ctor c), snd (connect ctor c))"
    by (simp add: connect_shared f)
  from s show "channels_opened (snd (connect ctor' (snd (connect ctor c)))) \<le> Suc (channels_opened c)"
    by (simp add: connect_shared connect_opens_at_most_one)
next
  show "onopen w c = c" by (simp add: onopen_def)
next
  fix ev q
  assume "ResolveConnect q \<in> set (effects (conn_step ev c)) \<and> ResolveConnect q \<notin> set (effects c)"
  then show "\<exists>w'. ev = OnMessage w' (Some ConnectedEvent)"
    using resolve_only_on_handshake by blast
qed

lemma connect_twice_on_new_connection:
  "connectPromise createWebSocketConnection = None \<and> \<not> isConnected createWebSocketConnection \<and>
   connect None createWebSocketConnection
     = (PromiseRef 0, snd (connect None createWebSocketConnection)) \<and>
   connectPromise (snd (connect None createWebSocketConnection)) = Some 0 \<and>
   connect None (snd (connect None createWebSocketConnection))
     = (PromiseRef 0, snd (connect None createWebSocketConnection)) \<and>
   channels_opened (snd (connect None (snd (connect None createWebSocketConnection)))) = 1 \<and>
   ResolveConnect 0 \<notin> set (effects (snd (connect None createWebSocketConnection))) \<and>
   ResolveConnect 0 \<notin> set (effects (conn_step (OnOpen 1) (snd (connect None createWebSocketConnection)))) \<and>
   ResolveConnect 0 \<in> set (effects (conn_step (OnMessage 1 (Some ConnectedEvent))
                                      (snd (connect None createWebSocketConnection)))) \<and>
   connectPromise (onmessage 1 (Some ConnectedEvent) (snd (connect None createWebSocketConnection))) = None \<and>
   isConnected (onmessage 1 (Some ConnectedEvent) (snd (connect None createWebSocketConnection))) \<and>
   connect None (onmessage 1 (Some ConnectedEvent) (snd (connect None createWebSocketConnection)))
     = (PromiseResolved, onmessage 1 (Some ConnectedEvent) (snd (connect None createWebSocketConnection)))"
  using connect_while_promise_set [where c = createWebSocketConnection and ctor = None and ctor' = None]
    connect_while_promise_set [where c = "snd (connect None createWebSocketConnection)" and p = 0
      and ctor = None and w = 1]
    connect_while_promise_set [where c = "onmessage 1 (Some ConnectedEvent) (snd (connect None createWebSocketConnection))"
      and ctor = None]
  unfolding connecting_state
  by (simp add: conn_defs)


text \<open>
  C6, evaluated on the run \<open>close_of_replaced_channel\<close>. After the error on the connected
  channel 1 the status is \<open>error\<close>, so \<open>connect()\<close> opens channel 3 and returns promise 2.
  The close event of channel 1 then runs the \<open>onclose\<close> of channel 1, whose \<open>cleanup\<close>
  clears \<open>connectPromise\<close>, and whose \<open>reject\<close> is that of promise 0, settled long ago:
  promise 2 is still pending and its channel 3 is still attached, yet \<open>connectPromise\<close>
  is null. The next \<open>connect()\<close> returns another promise, 5, and opens a third channel,
  6, beside channel 3.
\<close>

theorem close_of_old_channel_clears_promise:
  "status (conn_run error_on_connected createWebSocketConnection) = error_s \<and>
   connectPromise (conn_run error_on_connected createWebSocketConnection) = None \<and>
   attached (conn_run error_on_connected createWebSocketConnection) = [(1, 0)] \<and>
   fst (connect None (conn_run error_on_connected createWebSocketConnection))
     = PromiseRef 2 \<and>
   connectPromise (snd (connect None (conn_run error_on_connected createWebSocketConnection)))
     = Some 2 \<and>
   attached (snd (connect None (conn_run error_on_connected createWebSocketConnection)))
     = [(1, 0), (3, 2)] \<and>
   last (butlast (effects (conn_run close_of_replaced_channel createWebSocketConnection)))
     = RejectConnect 0 WebSocketError \<and>
   connectPromise (conn_run close_of_replaced_channel createWebSocketConnection) = None \<and>
   \<not> isConnected (conn_run close_of_replaced_channel createWebSocketConnection) \<and>
   attached (conn_run close_of_replaced_channel createWebSocketConnection) = [(3, 2)] \<and>
   \<not> connect_settled 2 (conn_run close_of_replaced_channel createWebSocketConnection) \<and>
   channels_opened (conn_run close_of_replaced_channel createWebSocketConnection) = 2 \<and>
   fst (connect None (conn_run close_of_replaced_channel createWebSocketConnection)) = PromiseRef 5 \<and>
   attached (snd (connect None (conn_run close_of_replaced_channel createWebSocketConnection)))
     = [(3, 2), (6, 5)] \<and>
   channels_opened (snd (connect None (conn_run close_of_replaced_channel createWebSocketConnection))) = 3"
  by (simp add: close_of_replaced_channel_def error_on_connected_def connect_settled_def conn_defs)






text \<open>
  C8, evaluated on the run \<open>close_after_two_retries\<close>. After \<open>close()\<close> the manual-close
  flag is set, \<open>reconnectTimeout\<close> is null and the timer 5 it held is cleared, but the
  timer 2 of the first retry is still scheduled: \<open>scheduleReconnect\<close> overwrote its handle.
  When timer 2 fires, \<open>connect()\<close> opens a third channel on the closed connection.
\<close>

theorem close_leaves_earlier_retry:
  "manualClose (conn_run close_after_two_retries createWebSocketConnection) \<and>
   reconnectTimeout (conn_run close_after_two_retries createWebSocketConnection) = None \<and>
   ClearTimeout 5 \<in> set (effects (conn_run close_after_two_retries createWebSocketConnection)) \<and>
   scheduled (conn_run close_after_two_retries createWebSocketConnection) = [2] \<and>
   channels_opened (conn_run close_after_two_retries createWebSocketConnection) = 2 \<and>
   ws (conn_run (close_after_two_retries @ [ReconnectTimer 2 None]) createWebSocketConnection) = Some 7 \<and>
   status (conn_run (close_after_two_retries @ [ReconnectTimer 2 None]) createWebSocketConnection) = connecting \<and>
   channels_opened (conn_run (close_after_two_retries @ [ReconnectTimer 2 None]) createWebSocketConnection) = 3"
  by (simp add: close_after_two_retries_def conn_defs)


section \<open>Properties of the session that rest on those of the connection\<close>

subsection \<open>Which steps touch the acknowledgments\<close>

lemma ack_calls_question [simp]:
  "is_question p \<Longrightarrow> ack_calls [Resolved p v] = []"
  "is_question p \<Longrightarrow> ack_calls [Rejected p e] = []"
  by (cases p; simp add: ack_calls_def)+

lemma handleResponse_acks:
  assumes "session_inv s"
  shows "pendingAcks (handleResponse parse message s) = pendingAcks s"
    and "ack_calls (settled (handleResponse parse message s)) = ack_calls (settled s)"
proof -
  from assms have kd: "kinds_inv s" by (simp add: session_inv_def)
  show "pendingAcks (handleResponse parse message s) = pendingAcks s"
    by (cases "map_of (pendingQuestions s) (id_msg message)")
       (simp_all add: handleResponse_absent handleResponse_present)
  show "ack_calls (settled (handleResponse parse message s)) = ack_calls (settled s)"
  proof (cases "map_of (pendingQuestions s) (id_msg message)")
    case None
    then show ?thesis by (simp add: handleResponse_absent)
  next
    case (Some q)
    from kinds_inv_entry(1)[OF kd map_of_SomeD[OF Some]] show ?thesis
      by (simp add: handleResponse_present[OF Some])
  qed
qed

lemma on_messageUpdated_acks:
  assumes "session_inv s"
  shows "pendingAcks (on_messageUpdated parse raw s) = pendingAcks s"
    and "ack_calls (settled (on_messageUpdated parse raw s)) = ack_calls (settled s)"
  using handleResponse_acks[OF assms]
  by (simp_all add: on_messageUpdated_def split: option.splits)

lemma deadline_acks:
  assumes "session_inv s"
  shows "pendingAcks (deadline t s) = pendingAcks s"
    and "ack_calls (settled (deadline t s)) = ack_calls (settled s)"
proof -
  from assms have kd: "kinds_inv s" by (simp add: session_inv_def)
  show "pendingAcks (deadline t s) = pendingAcks s"
    by (cases "map_of (deadlines s) t") (simp_all add: deadline_unset deadline_set)
  show "ack_calls (settled (deadline t s)) = ack_calls (settled s)"
  proof (cases "map_of (deadlines s) t")
    case None
    then show ?thesis by (simp add: deadline_unset)
  next
    case (Some d)
    from kinds_inv_entry(2)[OF kd map_of_SomeD[OF Some]] show ?thesis
      by (simp add: deadline_set[OF Some])
  qed
qed

lemma ensureConnected_fields:
  "pendingAcks (snd (ensureConnected ctor s)) = pendingAcks s"
  "settled (snd (ensureConnected ctor s)) = settled s"
  "pendingQuestions (snd (ensureConnected ctor s)) = pendingQuestions s"
  "deadlines (snd (ensureConnected ctor s)) = deadlines s"
  "ackCounter (snd (ensureConnected ctor s)) = ackCounter s"
  "recipients (snd (ensureConnected ctor s)) = recipients s"
  by (simp_all add: ensureConnected_def Let_def split: option.splits prod.splits)

lemma on_connection_acks:
  assumes inv: "session_inv s" and na: "\<not> is_ack_arrival (Connection i ev)"
    and ni: "\<not> is_invalidation (Connection i ev)"
  shows "pendingAcks (on_connection parse i ev s) = pendingAcks s \<and>
         ack_calls (settled (on_connection parse i ev s)) = ack_calls (settled s)"
proof (cases "i < length (conns s)")
  case False
  then show ?thesis by (simp add: on_connection_def)
next
  case True
  let ?c = "conns s ! i"
  let ?s' = "s\<lparr>conns := (conns s)[i := conn_step ev ?c]\<rparr>"
  have inv': "session_inv ?s'" using inv by simp
  have oc: "on_connection parse i ev s = foldl (\<lambda>s' e. listener parse e s') ?s' (emitted ?c (conn_step ev ?c))"
    using True by (simp add: on_connection_def Let_def)
  from conn_step_emits[of ev ?c]
  consider (ack) w d where "ev = OnMessage w (Some (MessageAckEvent d))"
    | (upd) m where "emitted ?c (conn_step ev ?c) = [EvMessageUpdated m]"
    | (cls) w code reason rnd pre where "ev = OnClose w code reason rnd" "\<not> list_ex has_listener pre"
        "emitted ?c (conn_step ev ?c) = pre @ [EvDisconnected code reason]"
    | (none) "\<not> list_ex has_listener (emitted ?c (conn_step ev ?c))"
    by blast
  then show ?thesis
  proof cases
    case ack
    with na show ?thesis by simp
  next
    case upd
    then show ?thesis unfolding oc using on_messageUpdated_acks[OF inv', of parse m] by simp
  next
    case cls
    from cls(1) ni have "Some code \<noteq> Some SESSION_EXPIRED_CLOSE_CODE" by simp
    then have "on_disconnected (Some code) ?s' = ?s'" by (rule on_disconnected_other)
    then show ?thesis unfolding oc cls(3) by (simp add: listeners_without_listener[OF cls(2)])
  next
    case none
    then show ?thesis unfolding oc by (simp add: listeners_without_listener)
  qed
qed

lemma step_keeps_acks:
  assumes inv: "session_inv s" and "\<not> is_send e" "\<not> is_ack_arrival e" "\<not> is_invalidation e" "e \<noteq> Close"
  shows "pendingAcks (session_step parse e s) = pendingAcks s \<and>
         ack_calls (settled (session_step parse e s)) = ack_calls (settled s)"
proof (cases e)
  case (AskBegin ctor)
  then show ?thesis by (simp add: ask_begin_state ensureConnected_fields)
next
  case (AskWait messageId timeout_opt)
  then show ?thesis by (simp add: ask_wait_eq)
next
  case (LogBegin ctor)
  then show ?thesis by (simp add: log_begin_def ensureConnected_fields)
next
  case (Deadline t)
  then show ?thesis using deadline_acks[OF inv] by simp
next
  case (Connection i ev)
  with assms on_connection_acks[of s i ev parse] show ?thesis by simp
qed (use assms in simp_all)


lemma on_connection_ack_arrival:
  assumes "i < length (conns s)" "map_of (attached (conns s ! i)) w = Some p"
  shows "on_connection parse i (OnMessage w (Some (MessageAckEvent d))) s =
           on_messageAck d (s\<lparr>conns := (conns s)[i := emit (EvMessageAck d) (conns s ! i)]\<rparr>)"
  using assms by (simp add: on_connection_def Let_def onmessage_emitted) (simp add: onmessage_def)

lemma on_connection_close:
  assumes "i < length (conns s)" "map_of (attached (conns s ! i)) w = Some p"
  shows "on_connection parse i (OnClose w code reason rnd) s =
           on_disconnected (Some code)
             (s\<lparr>conns := (conns s)[i := onclose w code reason rnd (conns s ! i)]\<rparr>)"
  using assms by (simp add: on_connection_def Let_def onclose_emitted)


subsection \<open>The run of two notifications\<close>

lemma connected_state:
  "onmessage 1 (Some ConnectedEvent) (snd (connect None createWebSocketConnection)) = connected_connection"
  unfolding connecting_state by (simp add: conn_defs connected_connection_def)

lemma begin_on_new_session:
  "snd (ensureConnected None (newSession rs)) =
     (newSession rs)\<lparr>conns := [snd (connect None createWebSocketConnection)], connection := Some 0\<rparr>"
  by (simp add: ensureConnected_def newSession_def Let_def split: prod.splits)

lemma handshake_on_new_session:
  "on_connection parse 0 (OnMessage 1 (Some ConnectedEvent))
     ((newSession rs)\<lparr>conns := [snd (connect None createWebSocketConnection)], connection := Some 0\<rparr>) =
   (newSession rs)\<lparr>conns := [connected_connection], connection := Some 0\<rparr>"
proof -
  have e: "emitted (snd (connect None createWebSocketConnection)) connected_connection
            = [EvStatusChange connected_s, EvConnected]"
    unfolding connecting_state by (simp add: emitted_def connected_connection_def createWebSocketConnection_def)
  have l: "foldl (\<lambda>s' e. listener parse e s') s [EvStatusChange connected_s, EvConnected] = s" for s
    by simp
  show ?thesis
    unfolding on_connection_def Let_def
    by (simp add: connected_state e l newSession_def del: One_nat_def foldl_Cons)
qed

lemma send_on_connected:
  assumes "conns s = [c]" "ws c = Some 1" "Suc (ackCounter s) \<notin> fst ` set (pendingAcks s)"
  shows "snd (sendAndWaitForAck (Some 0) True payload s) =
           s\<lparr>ackCounter := Suc (ackCounter s),
             pendingAcks := pendingAcks s @ [(Suc (ackCounter s), AckPromise (Suc (ackCounter s)))],
             conns := [c\<lparr>effects := effects c @ [WsSend 1 payload]\<rparr>]\<rparr>"
  using assms by (simp add: sendAndWaitForAck_def Let_def send_def map_set_new)

lemma two_logs_run: "session_run parse two_logs (newSession []) = two_logs_state"
proof -
  let ?s2 = "(newSession [])\<lparr>conns := [connected_connection], connection := Some 0\<rparr>"
  have 3: "snd (sendAndWaitForAck (Some 0) True (log_payload ''a'') ?s2) =
             ?s2\<lparr>ackCounter := 1, pendingAcks := [(1, AckPromise 1)],
                  conns := [connected_connection\<lparr>effects := effects connected_connection @ [WsSend 1 (log_payload ''a'')]\<rparr>]\<rparr>"
    (is "_ = ?s3")
    by (subst send_on_connected[where c = connected_connection])
       (simp_all add: newSession_def connected_connection_def)
  have 4: "snd (sendAndWaitForAck (Some 0) True (log_payload ''b'') ?s3) = two_logs_state"
    by (subst send_on_connected[where c = "connected_connection\<lparr>effects := effects connected_connection @ [WsSend 1 (log_payload ''a'')]\<rparr>"])
       (simp_all add: newSession_def connected_connection_def two_logs_state_def)
  show ?thesis
    unfolding two_logs_def session_run.simps session_step.simps log_begin_def log_send_def
      begin_on_new_session handshake_on_new_session
    using 3 4 by (simp add: log_payload_def del: One_nat_def)
qed


lemma sorted_resolutions: "acks_inv s \<Longrightarrow> sorted_wrt (<) (ack_resolutions (settled s))"
  by (simp add: acks_inv_def sorted_wrt_append)

lemma two_logs_ack:
  "on_messageAck ''m1'' two_logs_state =
     two_logs_state\<lparr>pendingAcks := [(2, AckPromise 2)],
                    settled := [Resolved (AckPromise 1) (JString ''m1'')]\<rparr>"
  by (simp add: on_messageAck_def two_logs_state_def resolve_def map_delete_def)

subsection \<open>The run of a question and a notification\<close>

lemma question_and_log_run:
  "session_run parse question_and_log (newSession [a_recipient]) = waiting_state"
proof -
  let ?s2 = "(newSession [a_recipient])\<lparr>conns := [connected_connection], connection := Some 0\<rparr>"
  let ?c3 = "connected_connection\<lparr>effects := effects connected_connection @ [WsSend 1 ask_payload]\<rparr>"
  let ?s3 = "?s2\<lparr>ackCounter := 1, pendingAcks := [(1, AckPromise 1)], conns := [?c3]\<rparr>"
  let ?c4 = "connected_connection\<lparr>effects := effects connected_connection @
                 [WsSend 1 ask_payload, Emit (EvMessageAck ''m1'')]\<rparr>"
  let ?s4 = "?s2\<lparr>ackCounter := 1, pendingAcks := [], conns := [?c4],
               settled := [Resolved (AckPromise 1) (JString ''m1'')]\<rparr>"
  let ?s5 = "?s4\<lparr>nextTimer := 1,
               deadlines := [(0, \<lparr>messageId_d = ''m1'', reject_d = QuestionPromise 0, timeout_d = 300000\<rparr>)],
               pendingQuestions := [(''m1'', \<lparr>caller_q = QuestionPromise 0, timeoutId = 0\<rparr>)]\<rparr>"
  have 1: "snd (ask_begin None (newSession [a_recipient])) =
      (newSession [a_recipient])\<lparr>conns := [snd (connect None createWebSocketConnection)], connection := Some 0\<rparr>"
    by (simp add: ask_begin_state begin_on_new_session) (simp add: newSession_def)
  have 3: "snd (sendAndWaitForAck (Some 0) True ask_payload ?s2) = ?s3"
    by (subst send_on_connected[where c = connected_connection])
       (simp_all add: newSession_def connected_connection_def)
  have 4: "on_connection parse 0 (OnMessage 1 (Some (MessageAckEvent ''m1''))) ?s3 = ?s4"
    by (subst on_connection_ack_arrival[where p = 0])
       (simp_all add: newSession_def connected_connection_def on_messageAck_def resolve_def
          map_delete_def emit_def)
  have 5: "snd (ask_wait ''m1'' None ?s4) = ?s5"
    by (simp add: ask_wait_eq newSession_def map_set_def DEFAULT_ASK_TIMEOUT_def)
  have 6: "snd (sendAndWaitForAck (Some 0) True (log_payload ''a'') ?s5) = waiting_state"
    by (subst send_on_connected[where c = ?c4])
       (simp_all add: newSession_def connected_connection_def waiting_state_def)
  show ?thesis
    unfolding question_and_log_def session_run.simps session_step.simps ask_send_def log_send_def
      1 handshake_on_new_session
    using 3 4 5 6 by (simp add: log_payload_def ask_payload_def del: One_nat_def)
qed


lemma callers_distinct:
  assumes "session_inv s"
  shows "distinct (map (\<lambda>(_, q). caller_q q) (pendingQuestions s) @ map snd (pendingAcks s))"
proof -
  from assms have a: "acks_inv s" and qi: "questions_inv s" by (simp_all add: session_inv_def)
  have q: "map (\<lambda>(_, q). caller_q q) (pendingQuestions s)
             = map QuestionPromise (map (\<lambda>x. timeoutId (snd x)) (pendingQuestions s))"
    using questions_inv_callers(1)[OF qi] by (simp add: case_prod_unfold)
  from a have "\<forall>x \<in> set (pendingAcks s). snd x = AckPromise (fst x)"
    by (simp add: acks_inv_def list_all_iff case_prod_unfold)
  then have k: "map snd (pendingAcks s) = map AckPromise (map fst (pendingAcks s))"
    by simp
  from a have "sorted_wrt (<) (map fst (pendingAcks s))" by (simp add: acks_inv_def sorted_wrt_append)
  then have dk: "distinct (map fst (pendingAcks s))" by (simp add: strict_sorted_iff)
  have dq: "distinct (map (\<lambda>x. timeoutId (snd x)) (pendingQuestions s))"
    by (rule questions_inv_timeoutIds_distinct[OF qi])
  have "distinct (map QuestionPromise (map (\<lambda>x. timeoutId (snd x)) (pendingQuestions s)))"
    using dq by (simp add: distinct_map inj_on_def)
  moreover have "distinct (map AckPromise (map fst (pendingAcks s)))"
    using dk by (simp add: distinct_map inj_on_def)
  moreover have "set (map QuestionPromise (map (\<lambda>x. timeoutId (snd x)) (pendingQuestions s)))
      \<inter> set (map AckPromise (map fst (pendingAcks s))) = {}"
    by auto
  ultimately show ?thesis unfolding q k by (simp only: distinct_append simp_thms)
qed

lemma expired_clears_timers:
  assumes "(m, q) \<in> set (pendingQuestions s)"
  shows "map_of (deadlines (on_disconnected (Some SESSION_EXPIRED_CLOSE_CODE) s)) (timeoutId q) = None"
proof -
  have "timeoutId q \<in> (\<lambda>x. timeoutId (snd x)) ` set (pendingQuestions s)"
    using assms by force
  then show ?thesis
    by (simp add: on_disconnected_expired map_of_eq_None_iff) force
qed

lemma waiting_state_expired:
  "on_disconnected (Some SESSION_EXPIRED_CLOSE_CODE) waiting_state =
     waiting_state\<lparr>pendingQuestions := [], pendingAcks := [], deadlines := [],
       settled := [Resolved (AckPromise 1) (JString ''m1''),
                   Rejected (QuestionPromise 0) SessionExpiredError,
                   Rejected (AckPromise 2) SessionExpiredError]\<rparr>"
  by (simp add: on_disconnected_expired waiting_state_def)





lemma a_response_transformed:
  "transformMessage parse (a_response content) = Some (a_response_message content)"
  by (simp add: transformMessage_def a_response_def a_response_message_def)

lemma calls_on_append [simp]: "calls_on p (xs @ ys) = calls_on p xs @ calls_on p ys"
  by (simp add: calls_on_def)




lemma session_run_append:
  "session_run parse (xs @ ys) s = session_run parse ys (session_run parse xs s)"
  by (induction xs arbitrary: s) simp_all

lemma first_log_run: "session_run parse first_log (newSession []) = first_log_state"
proof -
  let ?s2 = "(newSession [])\<lparr>conns := [connected_connection], connection := Some 0\<rparr>"
  let ?c3 = "connected_connection\<lparr>effects := effects connected_connection @ [WsSend 1 (log_payload ''a'')]\<rparr>"
  let ?s3 = "?s2\<lparr>ackCounter := 1, pendingAcks := [(1, AckPromise 1)], conns := [?c3]\<rparr>"
  have 3: "snd (sendAndWaitForAck (Some 0) True (log_payload ''a'') ?s2) = ?s3"
    by (subst send_on_connected[where c = connected_connection])
       (simp_all add: newSession_def connected_connection_def)
  have 4: "on_connection parse 0 (OnMessage 1 (Some (MessageAckEvent ''m_a''))) ?s3 = first_log_state"
    by (subst on_connection_ack_arrival[where p = 0])
       (simp_all add: newSession_def connected_connection_def on_messageAck_def resolve_def
          map_delete_def emit_def first_log_state_def first_log_connection_def)
  show ?thesis
    unfolding first_log_def session_run.simps session_step.simps log_begin_def log_send_def
      begin_on_new_session handshake_on_new_session
    using 3 4 by (simp add: log_payload_def del: One_nat_def)
qed

lemma begin_when_connected:
  "log_begin None first_log_state = (PromiseResolved, first_log_state)"
  by (simp add: log_begin_def ensureConnected_def first_log_state_def first_log_connection_def
      connect_def connected_connection_def)



lemma on_connection_silent:
  assumes "i < length (conns s)"
    "\<not> list_ex has_listener (emitted (conns s ! i) (conn_step ev (conns s ! i)))"
  shows "on_connection parse i ev s = s\<lparr>conns := (conns s)[i := conn_step ev (conns s ! i)]\<rparr>"
  using assms by (simp add: on_connection_def Let_def listeners_without_listener)

lemma closing_state:
  "onclose 1 1006 [] 0 first_log_connection = closing_connection"
  by (simp add: closing_connection_def first_log_connection_def connected_connection_def conn_defs)

lemma reconnected_state:
  "onmessage 4 (Some ConnectedEvent) (reconnectTimer 2 None closing_connection) = reconnected_connection"
  by (simp add: reconnected_connection_def closing_connection_def first_log_connection_def
      connected_connection_def conn_defs)

lemma send_on_closing_channel_run:
  "session_run parse send_on_closing_channel (newSession []) =
     first_log_state\<lparr>conns := [reconnected_connection\<lparr>effects := effects reconnected_connection @
                          [WsSend 4 (log_payload ''y'')]\<rparr>],
       ackCounter := 3, pendingAcks := [(2, AckPromise 2), (3, AckPromise 3)],
       settled := [Resolved (AckPromise 1) (JString ''m_a''), Rejected (AckPromise 2) WebSocketError]\<rparr>"
proof -
  let ?s6 = "first_log_state\<lparr>ackCounter := 2, pendingAcks := [(2, AckPromise 2)],
       settled := [Resolved (AckPromise 1) (JString ''m_a''), Rejected (AckPromise 2) WebSocketError]\<rparr>"
  have 5: "session_step parse (LogBegin None) first_log_state = first_log_state"
    by (simp add: begin_when_connected)
  have 6: "session_step parse (LogSend (Some 0) False ''x'' None) first_log_state = ?s6"
    by (simp add: log_send_def sendAndWaitForAck_def Let_def first_log_state_def
        first_log_connection_def send_def connected_connection_def map_set_def reject_def)
  have c6: "conns ?s6 = [first_log_connection]" by (simp add: first_log_state_def)
  have a1: "map_of (attached first_log_connection) 1 = Some 0"
    by (simp add: first_log_connection_def connected_connection_def)
  have 7: "session_step parse (Connection 0 (OnClose 1 1006 [] 0)) ?s6 = ?s6\<lparr>conns := [closing_connection]\<rparr>"
    unfolding session_step.simps
    by (subst on_connection_close[where p = 0])
       (simp_all add: c6 a1 closing_state on_disconnected_other SESSION_EXPIRED_CLOSE_CODE_def
          del: One_nat_def)
  let ?s7 = "?s6\<lparr>conns := [closing_connection]\<rparr>"
  let ?c8 = "reconnectTimer 2 None closing_connection"
  have e8: "emitted closing_connection ?c8 = [EvStatusChange connecting]"
    by (simp add: emitted_def closing_connection_def first_log_connection_def
        connected_connection_def conn_defs)
  have 8: "session_step parse (Connection 0 (ReconnectTimer 2 None)) ?s7 = ?s7\<lparr>conns := [?c8]\<rparr>"
    unfolding session_step.simps
    by (subst on_connection_silent) (simp_all add: e8 del: One_nat_def)
  let ?s8 = "?s7\<lparr>conns := [?c8]\<rparr>"
  have e9: "emitted ?c8 reconnected_connection = [EvStatusChange connected_s, EvConnected]"
    by (simp add: emitted_def reconnected_connection_def closing_connection_def
        first_log_connection_def connected_connection_def conn_defs)
  have 9: "session_step parse (Connection 0 (OnMessage 4 (Some ConnectedEvent))) ?s8
             = ?s8\<lparr>conns := [reconnected_connection]\<rparr>"
    unfolding session_step.simps
    by (subst on_connection_silent) (simp_all add: reconnected_state e9 del: One_nat_def)
  let ?s9 = "?s8\<lparr>conns := [reconnected_connection]\<rparr>"
  have 10: "session_step parse (LogBegin None) ?s9 = ?s9"
    by (simp add: log_begin_def ensureConnected_def first_log_state_def connect_def
        reconnected_connection_def closing_connection_def first_log_connection_def
        connected_connection_def)
  have 11: "session_step parse (LogSend (Some 0) True ''y'' None) ?s9 =
     first_log_state\<lparr>conns := [reconnected_connection\<lparr>effects := effects reconnected_connection @
                          [WsSend 4 (log_payload ''y'')]\<rparr>],
       ackCounter := 3, pendingAcks := [(2, AckPromise 2), (3, AckPromise 3)],
       settled := [Resolved (AckPromise 1) (JString ''m_a''), Rejected (AckPromise 2) WebSocketError]\<rparr>"
    by (simp add: log_send_def sendAndWaitForAck_def Let_def first_log_state_def send_def
        reconnected_connection_def closing_connection_def first_log_connection_def
        connected_connection_def map_set_def log_payload_def)
  show ?thesis
    unfolding send_on_closing_channel_def session_run_append first_log_run
    by (simp only: session_run.simps 5 6 7 8 9 10 11)
qed






subsection \<open>The claims about the session\<close>

text \<open>
  The listener of \<open>messageAck\<close> and the order of the map. In every state a session
  reaches from its construction, whatever the events and their order: an acknowledgment
  that arrives while \<open>pendingAcks\<close> is empty changes nothing; otherwise it calls \<open>resolve\<close>
  on the first entry of the map with the id it carries and removes that entry, the entry
  holds the promise of the send that reserved its key, and every other key is greater, so
  the first entry is the oldest entry of the map. Whether the caller of that entry is
  still waiting is another matter: an entry whose send threw stays in the map with its
  caller already rejected.
\<close>

lemma ack_resolves_first_entry:
  assumes "s = session_run parse es (newSession rs)"
  shows "(pendingAcks s = [] \<longrightarrow> on_messageAck d s = s) \<and>
         (\<forall>k p rest. pendingAcks s = (k, p) # rest \<longrightarrow>
            on_messageAck d s =
              s\<lparr>pendingAcks := rest, settled := settled s @ [Resolved (AckPromise k) (JString d)]\<rparr> \<and>
            p = AckPromise k \<and> (\<forall>k' \<in> fst ` set rest. k < k')) \<and>
         sorted_wrt (<) (ack_resolutions (settled s)) \<and>
         (\<forall>i w c. i < length (conns s) \<and> map_of (attached (conns s ! i)) w = Some c \<longrightarrow>
            session_step parse (Connection i (OnMessage w (Some (MessageAckEvent d)))) s =
              on_messageAck d (s\<lparr>conns := (conns s)[i := emit (EvMessageAck d) (conns s ! i)]\<rparr>)) \<and>
         (\<forall>e. \<not> is_send e \<and> \<not> is_ack_arrival e \<and> \<not> is_invalidation e \<and> e \<noteq> Close \<longrightarrow>
            pendingAcks (session_step parse e s) = pendingAcks s)"
proof -
  have inv: "session_inv s" unfolding assms by (rule reachable_inv)
  then have a: "acks_inv s" by (simp add: session_inv_def)
  show ?thesis
  proof (intro conjI allI impI)
    assume "pendingAcks s = []"
    then show "on_messageAck d s = s" by (rule on_messageAck_empty)
  next
    fix k p rest assume h: "pendingAcks s = (k, p) # rest"
    show "on_messageAck d s =
              s\<lparr>pendingAcks := rest, settled := settled s @ [Resolved (AckPromise k) (JString d)]\<rparr>"
      by (rule on_messageAck_head[OF a h])
    show "p = AckPromise k" by (rule acks_inv_head(1)[OF a h])
    show "\<forall>k' \<in> fst ` set rest. k < k'" by (rule acks_inv_head(3)[OF a h])
  next
    show "sorted_wrt (<) (ack_resolutions (settled s))" by (rule sorted_resolutions[OF a])
  next
    fix i w c assume "i < length (conns s) \<and> map_of (attached (conns s ! i)) w = Some c"
    then show "session_step parse (Connection i (OnMessage w (Some (MessageAckEvent d)))) s =
              on_messageAck d (s\<lparr>conns := (conns s)[i := emit (EvMessageAck d) (conns s ! i)]\<rparr>)"
      by (simp add: on_connection_ack_arrival)
  next
    fix e assume "\<not> is_send e \<and> \<not> is_ack_arrival e \<and> \<not> is_invalidation e \<and> e \<noteq> Close"
    then show "pendingAcks (session_step parse e s) = pendingAcks s"
      using step_keeps_acks[OF inv, of e parse] by simp
  qed
qed

lemma ack_resolves_first_entry_of_two_logs:
  "pendingAcks (session_run JSON_parse two_logs (newSession [])) = [(1, AckPromise 1), (2, AckPromise 2)] \<and>
   on_messageAck ''m1'' (session_run JSON_parse two_logs (newSession [])) =
     (session_run JSON_parse two_logs (newSession []))
       \<lparr>pendingAcks := [(2, AckPromise 2)], settled := [Resolved (AckPromise 1) (JString ''m1'')]\<rparr> \<and>
   session_step JSON_parse (Connection 0 (OnMessage 1 (Some (MessageAckEvent ''m1''))))
       (session_run JSON_parse two_logs (newSession [])) =
     on_messageAck ''m1'' ((session_run JSON_parse two_logs (newSession []))
       \<lparr>conns := [emit (EvMessageAck ''m1'') (conns (session_run JSON_parse two_logs (newSession [])) ! 0)]\<rparr>) \<and>
   pendingAcks (session_step JSON_parse (Deadline 0) (session_run JSON_parse two_logs (newSession [])))
     = [(1, AckPromise 1), (2, AckPromise 2)] \<and>
   pendingAcks (on_messageAck ''m2'' (on_messageAck ''m1'' (session_run JSON_parse two_logs (newSession [])))) = [] \<and>
   on_messageAck ''m3'' (on_messageAck ''m2'' (on_messageAck ''m1'' (session_run JSON_parse two_logs (newSession []))))
     = on_messageAck ''m2'' (on_messageAck ''m1'' (session_run JSON_parse two_logs (newSession [])))"
proof -
  let ?s = "session_run JSON_parse two_logs (newSession [])"
  have s: "?s = two_logs_state" by (rule two_logs_run)
  note t = ack_resolves_first_entry[where d = "''m1''" and parse = JSON_parse and es = two_logs
      and rs = "[]", OF refl]
  have p: "pendingAcks ?s = [(1, AckPromise 1), (2, AckPromise 2)]"
    unfolding s by (simp add: two_logs_state_def)
  from t p have 1: "on_messageAck ''m1'' ?s =
     ?s\<lparr>pendingAcks := [(2, AckPromise 2)], settled := settled ?s @ [Resolved (AckPromise 1) (JString ''m1'')]\<rparr>"
    by blast
  have st: "settled ?s = []" unfolding s by (simp add: two_logs_state_def)
  have c: "0 < length (conns ?s) \<and> map_of (attached (conns ?s ! 0)) 1 = Some 0"
    unfolding s by (simp add: two_logs_state_def connected_connection_def)
  have len: "(conns ?s)[0 := x] = [x]" for x
    unfolding s by (simp add: two_logs_state_def)
  from t c have 2: "session_step JSON_parse (Connection 0 (OnMessage 1 (Some (MessageAckEvent ''m1'')))) ?s =
     on_messageAck ''m1'' (?s\<lparr>conns := (conns ?s)[0 := emit (EvMessageAck ''m1'') (conns ?s ! 0)]\<rparr>)"
    by blast
  from t have "\<forall>e. \<not> is_send e \<and> \<not> is_ack_arrival e \<and> \<not> is_invalidation e \<and> e \<noteq> Close \<longrightarrow>
            pendingAcks (session_step JSON_parse e ?s) = pendingAcks ?s"
    by blast
  from this[rule_format, of "Deadline 0"]
  have 3: "pendingAcks (session_step JSON_parse (Deadline 0) ?s) = pendingAcks ?s"
    by simp
  have 4: "pendingAcks (on_messageAck ''m2'' (on_messageAck ''m1'' ?s)) = []"
    unfolding s two_logs_ack by (simp add: on_messageAck_def two_logs_state_def resolve_def map_delete_def)
  have 5: "on_messageAck ''m3'' (on_messageAck ''m2'' (on_messageAck ''m1'' ?s))
     = on_messageAck ''m2'' (on_messageAck ''m1'' ?s)"
    using 4 by (simp add: on_messageAck_empty)
  from p 1 2 3 4 5 show ?thesis by (simp add: st len)
qed


text \<open>
  C1, evaluated on the run \<open>send_on_closing_channel\<close>. The send of \<open>x\<close> threw, so its
  caller, promise 2, was rejected with \<open>WebSocketError\<close>, and its entry stayed in
  \<open>pendingAcks\<close>; \<open>x\<close> was never transmitted. The only frames transmitted are \<open>a\<close>, which
  has been acknowledged, and \<open>y\<close>, whose caller is promise 3: that is the oldest caller
  still waiting. When the acknowledgment \<open>m_y\<close> arrives, the listener removes the entry
  of \<open>x\<close> and calls \<open>resolve\<close> on promise 2, which is already settled; the caller of \<open>y\<close>
  receives no call and its entry stays pending.
\<close>

theorem ack_spent_on_failed_send:
  "pendingAcks (session_run JSON_parse send_on_closing_channel (newSession []))
     = [(2, AckPromise 2), (3, AckPromise 3)] \<and>
   calls_on (AckPromise 2) (settled (session_run JSON_parse send_on_closing_channel (newSession [])))
     = [Rejected (AckPromise 2) WebSocketError] \<and>
   calls_on (AckPromise 3) (settled (session_run JSON_parse send_on_closing_channel (newSession [])))
     = [] \<and>
   sent_in (effects (conns (session_run JSON_parse send_on_closing_channel (newSession [])) ! 0))
     = [(1, log_payload ''a''), (4, log_payload ''y'')] \<and>
   settled (session_step JSON_parse (Connection 0 (OnMessage 4 (Some (MessageAckEvent ''m_y''))))
       (session_run JSON_parse send_on_closing_channel (newSession [])))
     = [Resolved (AckPromise 1) (JString ''m_a''), Rejected (AckPromise 2) WebSocketError,
        Resolved (AckPromise 2) (JString ''m_y'')] \<and>
   pendingAcks (session_step JSON_parse (Connection 0 (OnMessage 4 (Some (MessageAckEvent ''m_y''))))
       (session_run JSON_parse send_on_closing_channel (newSession [])))
     = [(3, AckPromise 3)] \<and>
   calls_on (AckPromise 3)
     (settled (session_step JSON_parse (Connection 0 (OnMessage 4 (Some (MessageAckEvent ''m_y''))))
       (session_run JSON_parse send_on_closing_channel (newSession []))))
     = []"
proof -
  let ?c = "reconnected_connection\<lparr>effects := effects reconnected_connection @
                          [WsSend 4 (log_payload ''y'')]\<rparr>"
  let ?s = "first_log_state\<lparr>conns := [?c],
       ackCounter := 3, pendingAcks := [(2, AckPromise 2), (3, AckPromise 3)],
       settled := [Resolved (AckPromise 1) (JString ''m_a''), Rejected (AckPromise 2) WebSocketError]\<rparr>"
  have a: "0 < length (conns ?s)" "map_of (attached (conns ?s ! 0)) 4 = Some 3"
    by (simp_all add: reconnected_connection_def)
  have comm: "on_messageAck d (x\<lparr>conns := y\<rparr>) = (on_messageAck d x)\<lparr>conns := y\<rparr>" for d x y
    by (simp add: on_messageAck_def resolve_def Let_def split: option.splits)
  have k: "on_messageAck ''m_y'' ?s = ?s\<lparr>pendingAcks := [(3, AckPromise 3)],
      settled := [Resolved (AckPromise 1) (JString ''m_a''), Rejected (AckPromise 2) WebSocketError,
        Resolved (AckPromise 2) (JString ''m_y'')]\<rparr>"
    by (simp add: on_messageAck_def resolve_def map_delete_def)
  have e: "sent_in (effects ?c) = [(1, log_payload ''a''), (4, log_payload ''y'')]"
    by (simp add: reconnected_connection_def closing_connection_def first_log_connection_def
        connected_connection_def)
  show ?thesis
    unfolding send_on_closing_channel_run session_step.simps on_connection_ack_arrival[OF a] comm k
    using e by (simp add: calls_on_def)
qed



text \<open>
  C4. In every state a session reaches: when the listener of \<open>disconnected\<close> receives the
  session-expired code 4001, both maps end empty, \<open>reject\<close> is called with
  \<open>SessionExpiredError\<close> once for each entry of \<open>pendingQuestions\<close> and then once for each
  entry of \<open>pendingAcks\<close>, and nothing else is settled; the callers of the entries are
  pairwise different, so no caller is rejected twice; the deadline timer of every pending
  question was set and is cleared. With any other code the listener changes nothing. The
  close of an open channel is that listener call with the code of the close event.
\<close>

theorem session_expired_rejects_all:
  assumes "s = session_run parse es (newSession rs)"
  shows "pendingQuestions (on_disconnected (Some SESSION_EXPIRED_CLOSE_CODE) s) = [] \<and>
         pendingAcks (on_disconnected (Some SESSION_EXPIRED_CLOSE_CODE) s) = [] \<and>
         settled (on_disconnected (Some SESSION_EXPIRED_CLOSE_CODE) s) =
           settled s @ map (\<lambda>(_, q). Rejected (caller_q q) SessionExpiredError) (pendingQuestions s)
                     @ map (\<lambda>(_, p). Rejected p SessionExpiredError) (pendingAcks s) \<and>
         distinct (map (\<lambda>(_, q). caller_q q) (pendingQuestions s) @ map snd (pendingAcks s)) \<and>
         (\<forall>m q. (m, q) \<in> set (pendingQuestions s) \<longrightarrow>
            map_of (deadlines s) (timeoutId q) \<noteq> None \<and>
            map_of (deadlines (on_disconnected (Some SESSION_EXPIRED_CLOSE_CODE) s)) (timeoutId q) = None) \<and>
         (\<forall>code. code \<noteq> Some SESSION_EXPIRED_CLOSE_CODE \<longrightarrow> on_disconnected code s = s) \<and>
         (\<forall>i w c code reason rnd.
            i < length (conns s) \<and> map_of (attached (conns s ! i)) w = Some c \<longrightarrow>
            session_step parse (Connection i (OnClose w code reason rnd)) s =
              on_disconnected (Some code)
                (s\<lparr>conns := (conns s)[i := onclose w code reason rnd (conns s ! i)]\<rparr>)) \<and>
         SESSION_EXPIRED_CLOSE_CODE = 4001"
proof -
  have inv: "session_inv s" unfolding assms by (rule reachable_inv)
  then have qi: "questions_inv s" by (simp add: session_inv_def)
  show ?thesis
  proof (intro conjI allI impI)
    show "pendingQuestions (on_disconnected (Some SESSION_EXPIRED_CLOSE_CODE) s) = []"
      by (simp add: on_disconnected_expired)
    show "pendingAcks (on_disconnected (Some SESSION_EXPIRED_CLOSE_CODE) s) = []"
      by (simp add: on_disconnected_expired)
    show "settled (on_disconnected (Some SESSION_EXPIRED_CLOSE_CODE) s) =
           settled s @ map (\<lambda>(_, q). Rejected (caller_q q) SessionExpiredError) (pendingQuestions s)
                     @ map (\<lambda>(_, p). Rejected p SessionExpiredError) (pendingAcks s)"
      by (simp add: on_disconnected_expired)
    show "distinct (map (\<lambda>(_, q). caller_q q) (pendingQuestions s) @ map snd (pendingAcks s))"
      by (rule callers_distinct[OF inv])
    show "SESSION_EXPIRED_CLOSE_CODE = 4001" by (simp add: SESSION_EXPIRED_CLOSE_CODE_def)
  next
    fix m q assume h: "(m, q) \<in> set (pendingQuestions s)"
    from questions_inv_entry[OF qi h] show "map_of (deadlines s) (timeoutId q) \<noteq> None" by auto
    from h show "map_of (deadlines (on_disconnected (Some SESSION_EXPIRED_CLOSE_CODE) s)) (timeoutId q) = None"
      by (rule expired_clears_timers)
  next
    fix code :: "nat option" assume "code \<noteq> Some SESSION_EXPIRED_CLOSE_CODE"
    then show "on_disconnected code s = s" by (rule on_disconnected_other)
  next
    fix i w c code reason rnd
    assume "i < length (conns s) \<and> map_of (attached (conns s ! i)) w = Some c"
    then show "session_step parse (Connection i (OnClose w code reason rnd)) s =
              on_disconnected (Some code)
                (s\<lparr>conns := (conns s)[i := onclose w code reason rnd (conns s ! i)]\<rparr>)"
      by (simp add: on_connection_close)
  qed
qed

theorem session_expired_rejects_all_witness:
  "pendingQuestions (session_run JSON_parse question_and_log (newSession [a_recipient]))
     = [(''m1'', \<lparr>caller_q = QuestionPromise 0, timeoutId = 0\<rparr>)] \<and>
   pendingAcks (session_run JSON_parse question_and_log (newSession [a_recipient])) = [(2, AckPromise 2)] \<and>
   map_of (deadlines (session_run JSON_parse question_and_log (newSession [a_recipient]))) 0 \<noteq> None \<and>
   session_step JSON_parse (Connection 0 (OnClose 1 4001 ''expired'' 0))
       (session_run JSON_parse question_and_log (newSession [a_recipient])) =
     (on_disconnected (Some 4001) (session_run JSON_parse question_and_log (newSession [a_recipient])))
       \<lparr>conns := [onclose 1 4001 ''expired'' 0
                    (conns (session_run JSON_parse question_and_log (newSession [a_recipient])) ! 0)]\<rparr> \<and>
   on_disconnected (Some 4001) (session_run JSON_parse question_and_log (newSession [a_recipient])) =
     (session_run JSON_parse question_and_log (newSession [a_recipient]))
       \<lparr>pendingQuestions := [], pendingAcks := [], deadlines := [],
         settled := [Resolved (AckPromise 1) (JString ''m1''),
                     Rejected (QuestionPromise 0) SessionExpiredError,
                     Rejected (AckPromise 2) SessionExpiredError]\<rparr> \<and>
   on_disconnected (Some 1006) (session_run JSON_parse question_and_log (newSession [a_recipient]))
     = session_run JSON_parse question_and_log (newSession [a_recipient])"
proof -
  let ?s = "session_run JSON_parse question_and_log (newSession [a_recipient])"
  have s: "?s = waiting_state" by (rule question_and_log_run)
  note t = session_expired_rejects_all[where parse = JSON_parse and es = question_and_log
      and rs = "[a_recipient]", OF refl]
  have code: "SESSION_EXPIRED_CLOSE_CODE = 4001" using t by blast
  have p: "pendingQuestions ?s = [(''m1'', \<lparr>caller_q = QuestionPromise 0, timeoutId = 0\<rparr>)]"
    and a: "pendingAcks ?s = [(2, AckPromise 2)]"
    unfolding s by (simp_all add: waiting_state_def)
  from t have "\<forall>m q. (m, q) \<in> set (pendingQuestions ?s) \<longrightarrow> map_of (deadlines ?s) (timeoutId q) \<noteq> None"
    by blast
  from this[rule_format, of "''m1''" "\<lparr>caller_q = QuestionPromise 0, timeoutId = 0\<rparr>"] p
  have 1: "map_of (deadlines ?s) 0 \<noteq> None" by simp
  have c: "0 < length (conns ?s) \<and> map_of (attached (conns ?s ! 0)) 1 = Some 0"
    unfolding s by (simp add: waiting_state_def connected_connection_def)
  have len: "(conns ?s)[0 := x] = [x]" for x
    unfolding s by (simp add: waiting_state_def)
  from t have "\<forall>i w c code reason rnd.
            i < length (conns ?s) \<and> map_of (attached (conns ?s ! i)) w = Some c \<longrightarrow>
            session_step JSON_parse (Connection i (OnClose w code reason rnd)) ?s =
              on_disconnected (Some code)
                (?s\<lparr>conns := (conns ?s)[i := onclose w code reason rnd (conns ?s ! i)]\<rparr>)"
    by blast
  from this[rule_format, of 0 1 0 4001 "''expired''" 0] c
  have 2: "session_step JSON_parse (Connection 0 (OnClose 1 4001 ''expired'' 0)) ?s =
     on_disconnected (Some 4001) (?s\<lparr>conns := [onclose 1 4001 ''expired'' 0 (conns ?s ! 0)]\<rparr>)"
    by (simp only: len)
  have comm: "on_disconnected code (x\<lparr>conns := y\<rparr>) = (on_disconnected code x)\<lparr>conns := y\<rparr>" for code x y
    by (simp add: on_disconnected_def rejectQuestions_eq rejectAcks_eq)
  have 3: "on_disconnected (Some 4001) ?s =
     ?s\<lparr>pendingQuestions := [], pendingAcks := [], deadlines := [],
         settled := [Resolved (AckPromise 1) (JString ''m1''),
                     Rejected (QuestionPromise 0) SessionExpiredError,
                     Rejected (AckPromise 2) SessionExpiredError]\<rparr>"
    using waiting_state_expired unfolding s code .
  from t have "\<forall>code. code \<noteq> Some SESSION_EXPIRED_CLOSE_CODE \<longrightarrow> on_disconnected code ?s = ?s"
    by blast
  from this[rule_format, of "Some 1006"] have 4: "on_disconnected (Some 1006) ?s = ?s"
    by (simp add: code)
  from p a 1 2 3 4 show ?thesis by (simp only: comm) simp
qed





text \<open>
  C9. On a session whose recipient list is empty, \<open>ask\<close> throws \<open>BadRequestError\<close> (the
  error of code BAD_REQUEST, the SDK's error for an invalid request) at its first
  statement and leaves the session as it was: no connection object is created, none is
  connected, nothing is transmitted, and the pending maps and the counter are unchanged.
\<close>

theorem ask_without_recipients:
  assumes "recipients s = []"
  shows "ask_begin ctor s = (Inl BadRequestError, s) \<and>
         session_step parse (AskBegin ctor) s = s \<and>
         conns (snd (ask_begin ctor s)) = conns s \<and>
         connection (snd (ask_begin ctor s)) = connection s \<and>
         pendingAcks (snd (ask_begin ctor s)) = pendingAcks s \<and>
         pendingQuestions (snd (ask_begin ctor s)) = pendingQuestions s \<and>
         ackCounter (snd (ask_begin ctor s)) = ackCounter s"
  using assms by (simp add: ask_begin_def)

theorem ask_without_recipients_witness:
  "recipients (newSession []) = [] \<and>
   ask_begin None (newSession []) = (Inl BadRequestError, newSession []) \<and>
   conns (session_step JSON_parse (AskBegin None) (newSession [])) = [] \<and>
   connection (session_step JSON_parse (AskBegin None) (newSession [])) = None"
proof -
  have r: "recipients (newSession []) = []" by (simp add: newSession_def)
  from ask_without_recipients[OF r, of None JSON_parse] r show ?thesis
    by (simp add: newSession_def)
qed









section \<open>Properties of the contract\<close>

lemma ResponseFromInputs_set:
  "ResponseFromInputs T n =
     (if {K \<in> set T. name_of K = n} = {} then None
      else Some (ResponseTypeFromInput ` {K \<in> set T. name_of K = n}))"
proof -
  have "(filter (\<lambda>K. name_of K = n) T = []) = ({K \<in> set T. name_of K = n} = {})"
    by (auto simp add: filter_empty_conv)
  then show ?thesis by (simp add: ResponseFromInputs_def Let_def)
qed

lemma ResponseFromInputs_dom: "dom (ResponseFromInputs T) = set (map name_of T)"
  by (auto simp add: ResponseFromInputs_set dom_def split: if_splits)

lemma ResponseFromInputs_field:
  assumes "distinct (map name_of T)" "K \<in> set T"
  shows "ResponseFromInputs T (name_of K) = Some {ResponseTypeFromInput K}"
proof -
  from assms(1) have "inj_on name_of (set T)" by (simp add: distinct_map)
  with assms(2) have "{K' \<in> set T. name_of K' = name_of K} = {K}"
    by (auto dest: inj_onD)
  then show ?thesis by (simp add: ResponseFromInputs_set)
qed

lemma ResponseFromInputs_permute:
  assumes "mset T' = mset T"
  shows "ResponseFromInputs T' = ResponseFromInputs T"
proof -
  from assms have "set T' = set T" by (rule mset_eq_setD)
  then show ?thesis by (intro ext) (simp add: ResponseFromInputs_set)
qed

subsection \<open>Decoding a response\<close>

lemma handleResponse_settles:
  assumes "map_of (pendingQuestions s) (id_msg message) = Some q"
    "responseContent message = Some content"
  shows "settled (handleResponse parse message s) =
           settled s @ [Resolved (caller_q q)
                          (case parse content of Some v \<Rightarrow> v | None \<Rightarrow> JString content)]"
  using assms(2) by (simp add: handleResponse_present[OF assms(1)] resolved_value_def)

lemma parse_42: "JSON_parse ''42'' = Some (JNumber 42)"
  by code_simp

lemma parse_maybe:
  \<open>JSON_parse ''{"approved":"maybe"}'' = Some (JObject [(''approved'', JString ''maybe'')])\<close>
  by code_simp

lemma parse_approved:
  \<open>JSON_parse ''{"approved":true,"notes":"ok"}''
     = Some (JObject [(''approved'', JBool True), (''notes'', JString ''ok'')])\<close>
  by code_simp

lemma parse_yes: "JSON_parse ''yes'' = None"
  by code_simp

lemmas parse_examples = parse_42 parse_maybe parse_approved parse_yes

lemma waiting_state_response:
  "settled (handleResponse parse (a_response_message content) waiting_state) =
     [Resolved (AckPromise 1) (JString ''m1''),
      Resolved (QuestionPromise 0) (case parse content of Some v \<Rightarrow> v | None \<Rightarrow> JString content)]"
  by (subst handleResponse_settles[where q = "\<lparr>caller_q = QuestionPromise 0, timeoutId = 0\<rparr>"
        and content = content])
     (simp_all add: waiting_state_def a_response_message_def)

subsection \<open>The claims about the contract\<close>

text \<open>
  C3. For a descriptor list with pairwise different names, the derived response record
  has exactly the declared names as its fields, the field of each descriptor has the one
  type \<open>ResponseTypeFromInput\<close> gives it, and a permutation of the list derives the same
  record. A confirm gives \<open>boolean\<close>, a select with the multiple flag gives \<open>string[]\<close>, a
  select without it gives \<open>string\<close>, and a text gives \<open>string\<close>.
\<close>

theorem response_shape_from_inputs:
  assumes "distinct (map name_of T)"
  shows "dom (ResponseFromInputs T) = set (map name_of T) \<and>
         (\<forall>K \<in> set T. ResponseFromInputs T (name_of K) = Some {ResponseTypeFromInput K}) \<and>
         (\<forall>T'. mset T' = mset T \<longrightarrow> ResponseFromInputs T' = ResponseFromInputs T) \<and>
         (\<forall>n l d. ResponseTypeFromInput (ConfirmInput n l d) = boolean_t) \<and>
         (\<forall>n l os r. ResponseTypeFromInput (SelectInput n l os r (Some True)) = string_array_t) \<and>
         (\<forall>n l os r m. m \<noteq> Some True \<longrightarrow>
            ResponseTypeFromInput (SelectInput n l os r m) = string_t) \<and>
         (\<forall>n l p r ml mx. ResponseTypeFromInput (TextInput n l p r ml mx) = string_t)"
proof (intro conjI allI impI ballI)
  show "dom (ResponseFromInputs T) = set (map name_of T)" by (rule ResponseFromInputs_dom)
next
  fix K assume "K \<in> set T"
  with assms show "ResponseFromInputs T (name_of K) = Some {ResponseTypeFromInput K}"
    by (rule ResponseFromInputs_field)
next
  fix T' assume "mset T' = mset T"
  then show "ResponseFromInputs T' = ResponseFromInputs T" by (rule ResponseFromInputs_permute)
next
  fix m :: "bool option" and n l os r assume "m \<noteq> Some True"
  then show "ResponseTypeFromInput (SelectInput n l os r m) = string_t" by simp
qed simp_all

theorem response_shape_from_inputs_witness:
  "distinct (map name_of example_inputs) \<and>
   dom (ResponseFromInputs example_inputs) = {''approved'', ''notes''} \<and>
   ResponseFromInputs example_inputs ''approved'' = Some {boolean_t} \<and>
   ResponseFromInputs example_inputs ''notes'' = Some {string_t} \<and>
   mset (rev example_inputs) = mset example_inputs \<and>
   ResponseFromInputs (rev example_inputs) = ResponseFromInputs example_inputs \<and>
   None \<noteq> Some True \<and>
   ResponseTypeFromInput (SelectInput ''env'' None (StringOptions [''staging'', ''production'']) None None)
     = string_t \<and>
   ResponseTypeFromInput (SelectInput ''tags'' None (StringOptions [''a'', ''b'']) None (Some True))
     = string_array_t"
proof -
  have d: "distinct (map name_of example_inputs)" by (simp add: example_inputs_def)
  note t = response_shape_from_inputs[OF d]
  note t1 = t[THEN conjunct1]
  note t2 = t[THEN conjunct2, THEN conjunct1, rule_format]
  note t3 = t[THEN conjunct2, THEN conjunct2, THEN conjunct1, rule_format]
  note t6 = t[THEN conjunct2, THEN conjunct2, THEN conjunct2, THEN conjunct2, THEN conjunct2,
      THEN conjunct1, rule_format]
  have 1: "dom (ResponseFromInputs example_inputs) = {''approved'', ''notes''}"
    unfolding t1 by (simp add: example_inputs_def)
  have "ConfirmInput ''approved'' None None \<in> set example_inputs" by (simp add: example_inputs_def)
  from t2[OF this] have 2: "ResponseFromInputs example_inputs ''approved'' = Some {boolean_t}"
    by simp
  have "TextInput ''notes'' None None None None None \<in> set example_inputs"
    by (simp add: example_inputs_def)
  from t2[OF this] have 3: "ResponseFromInputs example_inputs ''notes'' = Some {string_t}"
    by simp
  have m: "mset (rev example_inputs) = mset example_inputs" by simp
  note 4 = t3[OF m]
  have "(None :: bool option) \<noteq> Some True" by simp
  note 5 = t6[OF this, of "''env''" None "StringOptions [''staging'', ''production'']" None]
  have 6: "ResponseTypeFromInput (SelectInput ''tags'' None (StringOptions [''a'', ''b'']) None (Some True))
     = string_array_t" by simp
  show ?thesis
    apply (intro conjI)
            apply (rule d)
           apply (rule 1)
          apply (rule 2)
         apply (rule 3)
        apply (rule m)
       apply (rule 4)
      apply simp
     apply (rule 5)
    apply (rule 6)
    done
qed

text \<open>
  C2, as stated, fails: the response is not checked against the derived shape. For the
  question of the example, the payload \<open>42\<close> and the payload \<open>{"approved":"maybe"}\<close> do not
  conform to the shape, and the caller receives the decoded number and the decoded
  object, not the raw text.
\<close>

theorem nonconforming_json_not_raw_text:
  \<open>\<not> spec_conforms_to_shape example_inputs (JNumber 42) \<and>
   settled (handleResponse JSON_parse (a_response_message ''42'')
      (session_run JSON_parse question_and_log (newSession [a_recipient])))
     = [Resolved (AckPromise 1) (JString ''m1''), Resolved (QuestionPromise 0) (JNumber 42)] \<and>
   JNumber 42 \<noteq> JString ''42'' \<and>
   \<not> spec_conforms_to_shape example_inputs (JObject [(''approved'', JString ''maybe'')]) \<and>
   settled (handleResponse JSON_parse (a_response_message ''{"approved":"maybe"}'')
      (session_run JSON_parse question_and_log (newSession [a_recipient])))
     = [Resolved (AckPromise 1) (JString ''m1''),
        Resolved (QuestionPromise 0) (JObject [(''approved'', JString ''maybe'')])] \<and>
   JObject [(''approved'', JString ''maybe'')] \<noteq> JString ''{"approved":"maybe"}''\<close>
  unfolding question_and_log_run waiting_state_response parse_examples
  by (simp add: spec_conforms_to_shape_def example_inputs_def)


text \<open>
  C2, amended. For a response content delivered to a pending question, the caller is
  resolved by exactly one call and never rejected: with the value \<open>JSON.parse\<close> returns
  whenever it accepts the content, and with the raw content when it throws. The entry is
  removed.
\<close>

theorem response_decoding:
  assumes "map_of (pendingQuestions s) (id_msg message) = Some q"
    and "responseContent message = Some content"
  shows "(\<forall>v. parse content = Some v \<longrightarrow>
            settled (handleResponse parse message s) = settled s @ [Resolved (caller_q q) v]) \<and>
         (parse content = None \<longrightarrow>
            settled (handleResponse parse message s) =
              settled s @ [Resolved (caller_q q) (JString content)]) \<and>
         (\<exists>v. settled (handleResponse parse message s) = settled s @ [Resolved (caller_q q) v]) \<and>
         map_of (pendingQuestions (handleResponse parse message s)) (id_msg message) = None"
  using handleResponse_settles[OF assms, of parse]
  by (simp add: handleResponse_present[OF assms(1)] map_of_map_delete split: option.splits)

theorem response_decoding_witness:
  \<open>map_of (pendingQuestions (session_run JSON_parse question_and_log (newSession [a_recipient])))
      (id_msg (a_response_message ''yes''))
     = Some \<lparr>caller_q = QuestionPromise 0, timeoutId = 0\<rparr> \<and>
   responseContent (a_response_message ''yes'') = Some ''yes'' \<and>
   JSON_parse ''yes'' = None \<and>
   settled (handleResponse JSON_parse (a_response_message ''yes'')
      (session_run JSON_parse question_and_log (newSession [a_recipient])))
     = [Resolved (AckPromise 1) (JString ''m1''), Resolved (QuestionPromise 0) (JString ''yes'')] \<and>
   JSON_parse ''{"approved":true,"notes":"ok"}''
     = Some (JObject [(''approved'', JBool True), (''notes'', JString ''ok'')]) \<and>
   spec_conforms_to_shape example_inputs (JObject [(''approved'', JBool True), (''notes'', JString ''ok'')]) \<and>
   settled (handleResponse JSON_parse (a_response_message ''{"approved":true,"notes":"ok"}'')
      (session_run JSON_parse question_and_log (newSession [a_recipient])))
     = [Resolved (AckPromise 1) (JString ''m1''),
        Resolved (QuestionPromise 0) (JObject [(''approved'', JBool True), (''notes'', JString ''ok'')])]\<close>
proof -
  let ?s = "session_run JSON_parse question_and_log (newSession [a_recipient])"
  have s: "?s = waiting_state" by (rule question_and_log_run)
  have m: "map_of (pendingQuestions ?s) (id_msg (a_response_message c))
             = Some \<lparr>caller_q = QuestionPromise 0, timeoutId = 0\<rparr>" for c
    unfolding s by (simp add: waiting_state_def a_response_message_def)
  have r: "responseContent (a_response_message c) = Some c" for c
    by (simp add: a_response_message_def)
  have st: "settled ?s = [Resolved (AckPromise 1) (JString ''m1'')]"
    unfolding s by (simp add: waiting_state_def)
  from response_decoding[OF m r, of JSON_parse "''yes''"] parse_examples(4)
  have 1: "settled (handleResponse JSON_parse (a_response_message ''yes'') ?s)
     = [Resolved (AckPromise 1) (JString ''m1''), Resolved (QuestionPromise 0) (JString ''yes'')]"
    by (simp add: st)
  from response_decoding[OF m r, of JSON_parse \<open>''{"approved":true,"notes":"ok"}''\<close>] parse_examples(3)
  have 2: \<open>settled (handleResponse JSON_parse (a_response_message ''{"approved":true,"notes":"ok"}'') ?s)
     = [Resolved (AckPromise 1) (JString ''m1''),
        Resolved (QuestionPromise 0) (JObject [(''approved'', JBool True), (''notes'', JString ''ok'')])]\<close>
    by (simp add: st)
  have 3: "spec_conforms_to_shape example_inputs (JObject [(''approved'', JBool True), (''notes'', JString ''ok'')])"
    by (simp add: spec_conforms_to_shape_def example_inputs_def)
  from m[of "''yes''"] r[of "''yes''"] parse_examples(3,4) 1 2 3 show ?thesis by simp
qed


end
